theory Spec2Isabelle
  imports Main "HOL-Library.Word"
begin

section \<open>The serial command interpreter of vr\_sample\_train.ino\<close>

text \<open>
  The sketch keeps the received command line in the global byte array \<open>cmd\<close> and works
  on it through indices and through the global pointer \<open>paraAddr\<close>. A byte is a
  \<open>uint8_t\<close>; an \<open>int\<close> of the sketch is modelled as a mathematical integer, the
  counters that a loop can drive beyond \<open>INT_MAX\<close> are guarded. A buffer is the list of
  its bytes, a pointer into \<open>cmd\<close> is the offset of the byte it points to. Every function
  returns an option: \<open>None\<close> stands for behaviour that C leaves undefined (a read outside
  the buffer, a signed overflow, a pointer that was never assigned).
\<close>

type_synonym u8 = "8 word"

definition bytes :: "string \<Rightarrow> u8 list" where
  "bytes s = map of_char s"

definition INT_MAX :: int where
  "INT_MAX = 32767"

subsection \<open>compareCMD\<close>

text \<open>
  \<open>res\<close> is a \<open>uint8_t\<close>: both differences are taken modulo 256. \<open>para1\<close> and
  \<open>para2\<close> are the bytes from the two pointers onwards.
\<close>

function compareCMD_for :: "u8 list \<Rightarrow> u8 list \<Rightarrow> int \<Rightarrow> nat \<Rightarrow> int option" where
  "compareCMD_for para1 para2 len i =
     (if int i < len then
        (if i < length para1 \<and> i < length para2 then
           (let res = para2 ! i - para1 ! i in
            if res \<noteq> 0 \<and> res \<noteq> 0x20 then Some (- 1)
            else
              (let res = para1 ! i - para2 ! i in
               if res \<noteq> 0 \<and> res \<noteq> 0x20 then Some (- 1)
               else compareCMD_for para1 para2 len (i + 1)))
         else None)
      else Some 0)"
  by pat_completeness auto
termination
  by (relation "measure (\<lambda>(para1, para2, len, i). nat (len - int i))") auto

declare compareCMD_for.simps [simp del]

definition compareCMD :: "u8 list \<Rightarrow> u8 list \<Rightarrow> int \<Rightarrow> int option" where
  "compareCMD para1 para2 len = compareCMD_for para1 para2 len 0"

subsection \<open>checkCMD\<close>

function checkCMD_for :: "u8 list \<Rightarrow> int \<Rightarrow> nat \<Rightarrow> int option" where
  "checkCMD_for cmd len i =
     (if int i < len then
        (if i < length cmd then
           (if cmd ! i > 0x1F \<and> cmd ! i < 0x7F then checkCMD_for cmd len (i + 1)
            else if cmd ! i = 0x09 \<or> cmd ! i = 0x20 \<or> cmd ! i = 0x0D \<or> cmd ! i = 0x0A
              then checkCMD_for cmd len (i + 1)
            else Some (- 1))
         else None)
      else Some 0)"
  by pat_completeness auto
termination
  by (relation "measure (\<lambda>(cmd, len, i). nat (len - int i))") auto

declare checkCMD_for.simps [simp del]

definition checkCMD :: "u8 list \<Rightarrow> int \<Rightarrow> int option" where
  "checkCMD cmd len = checkCMD_for cmd len 0"

subsection \<open>checkParaNum\<close>

text \<open>
  The inner \<open>while\<close> of \<open>checkParaNum\<close>, and the second inner \<open>while\<close> of \<open>findPara\<close>:
  advance \<open>i\<close> to the next tab, space, carriage return or newline. The result is the
  value of \<open>i\<close> after the loop.
\<close>

function skipPara_while :: "u8 list \<Rightarrow> nat \<Rightarrow> nat option" where
  "skipPara_while cmd i =
     (if i < length cmd then
        (if cmd ! i \<noteq> 0x09 \<and> cmd ! i \<noteq> 0x20 \<and> cmd ! i \<noteq> 0x0D \<and> cmd ! i \<noteq> 0x0A
           then skipPara_while cmd (i + 1)
         else Some i)
      else None)"
  by pat_completeness auto
termination
  by (relation "measure (\<lambda>(cmd, i). length cmd - i)") auto

declare skipPara_while.simps [simp del]

lemma skipPara_while_ge: "skipPara_while cmd i = Some j \<Longrightarrow> i \<le> j"
proof (induction cmd i rule: skipPara_while.induct)
  case (1 cmd i)
  from "1.prems" have "i < length cmd"
    by (simp add: skipPara_while.simps [of cmd i] split: if_splits)
  show ?case
  proof (cases "cmd ! i \<noteq> 0x09 \<and> cmd ! i \<noteq> 0x20 \<and> cmd ! i \<noteq> 0x0D \<and> cmd ! i \<noteq> 0x0A")
    case True
    with "1.prems" \<open>i < length cmd\<close> have "skipPara_while cmd (i + 1) = Some j"
      by (simp add: skipPara_while.simps [of cmd i])
    with "1.IH" \<open>i < length cmd\<close> True have "i + 1 \<le> j" by blast
    then show ?thesis by simp
  next
    case False
    with "1.prems" \<open>i < length cmd\<close> have "j = i"
      by (auto simp add: skipPara_while.simps [of cmd i])
    then show ?thesis by simp
  qed
qed

function checkParaNum_for :: "u8 list \<Rightarrow> int \<Rightarrow> nat \<Rightarrow> int \<Rightarrow> int option" where
  "checkParaNum_for cmd len i cnt =
     (if int i < len then
        (if i < length cmd then
           (if cmd ! i \<noteq> 0x09 \<and> cmd ! i \<noteq> 0x20 \<and> cmd ! i \<noteq> 0x0D \<and> cmd ! i \<noteq> 0x0A then
              (case skipPara_while cmd i of
                 None \<Rightarrow> None
               | Some j \<Rightarrow> checkParaNum_for cmd len (j + 1) (cnt + 1))
            else checkParaNum_for cmd len (i + 1) cnt)
         else None)
      else Some cnt)"
  by pat_completeness auto
termination
  by (relation "measure (\<lambda>(cmd, len, i, cnt). nat (len - int i))")
     (auto dest: skipPara_while_ge)

declare checkParaNum_for.simps [simp del]

definition checkParaNum :: "u8 list \<Rightarrow> int \<Rightarrow> int option" where
  "checkParaNum cmd len = checkParaNum_for cmd len 0 0"

subsection \<open>findPara\<close>

text \<open>The first inner \<open>while\<close> of \<open>findPara\<close>, which counts \<open>paraLen\<close> up with \<open>i\<close>.\<close>

function paraLen_while :: "u8 list \<Rightarrow> nat \<Rightarrow> int \<Rightarrow> int option" where
  "paraLen_while cmd i paraLen =
     (if i < length cmd then
        (if cmd ! i \<noteq> 0x09 \<and> cmd ! i \<noteq> 0x20 \<and> cmd ! i \<noteq> 0x0D \<and> cmd ! i \<noteq> 0x0A
           then paraLen_while cmd (i + 1) (paraLen + 1)
         else Some paraLen)
      else None)"
  by pat_completeness auto
termination
  by (relation "measure (\<lambda>(cmd, i, paraLen). length cmd - i)") auto

declare paraLen_while.simps [simp del]

text \<open>
  The outer loop of \<open>findPara\<close>. The fourth argument is the pointer that \<open>addr\<close> points
  to, as it is before the call; the result is the return value and the pointer after the
  call. The test that opens a parameter looks for tab and space only, so at a carriage
  return or newline \<open>cnt\<close> is incremented while \<open>i\<close> stays; \<open>cnt++\<close> at \<open>INT_MAX\<close>
  would be a signed overflow.
\<close>

function findPara_for ::
  "u8 list \<Rightarrow> int \<Rightarrow> int \<Rightarrow> nat option \<Rightarrow> nat \<Rightarrow> int \<Rightarrow> (int \<times> nat option) option" where
  "findPara_for cmd len paraIndex addr i cnt =
     (if int i < len then
        (if i < length cmd then
           (let dt = cmd ! i in
            if dt \<noteq> 0x09 \<and> dt \<noteq> 0x20 then
              (if cnt < INT_MAX then
                 (let cnt = cnt + 1 in
                  if paraIndex = cnt then
                    (case paraLen_while cmd i 0 of
                       None \<Rightarrow> None
                     | Some paraLen \<Rightarrow> Some (paraLen, Some i))
                  else
                    (case skipPara_while cmd i of
                       None \<Rightarrow> None
                     | Some j \<Rightarrow> findPara_for cmd len paraIndex addr j cnt))
               else None)
            else findPara_for cmd len paraIndex addr (i + 1) cnt)
         else None)
      else Some (- 1, addr))"
  by pat_completeness auto
termination
proof (relation "measures [\<lambda>(cmd, len, paraIndex, addr, i, cnt). nat (len - int i),
                          \<lambda>(cmd, len, paraIndex, addr, i, cnt). nat (INT_MAX - cnt)]",
       goal_cases)
  case 1
  show ?case by simp
next
  case (2 cmd len paraIndex addr i cnt dt cnt' j)
  then have "i \<le> j" by (auto dest: skipPara_while_ge)
  with 2 show ?case by (cases "i = j") auto
next
  case 3
  then show ?case by auto
qed

declare findPara_for.simps [simp del]

definition findPara :: "u8 list \<Rightarrow> int \<Rightarrow> int \<Rightarrow> nat option \<Rightarrow> (int \<times> nat option) option" where
  "findPara cmd len paraIndex addr = findPara_for cmd len paraIndex addr 0 0"

subsection \<open>atoi\<close>

text \<open>
  \<open>atoi\<close> is the C library's, not the sketch's. It is modelled after ISO C (7.22.1.2 with
  7.22.1.4): white space is skipped, an optional sign is read, then decimal digits up to
  the first byte that is not one. The argument is the bytes from the pointer onwards;
  the scan leaving the buffer and a value that \<open>int\<close> cannot hold are undefined.
\<close>

definition isspace :: "u8 \<Rightarrow> bool" where
  "isspace c \<longleftrightarrow> c = 0x20 \<or> (0x09 \<le> c \<and> c \<le> 0x0D)"

definition isdigit :: "u8 \<Rightarrow> bool" where
  "isdigit c \<longleftrightarrow> 0x30 \<le> c \<and> c \<le> 0x39"

fun atoi_space :: "u8 list \<Rightarrow> u8 list option" where
  "atoi_space [] = None"
| "atoi_space (c # cs) = (if isspace c then atoi_space cs else Some (c # cs))"

fun atoi_digits :: "int \<Rightarrow> u8 list \<Rightarrow> int option" where
  "atoi_digits n [] = None"
| "atoi_digits n (c # cs) =
     (if isdigit c then atoi_digits (n * 10 + uint (c - 0x30)) cs else Some n)"

definition atoi :: "u8 list \<Rightarrow> int option" where
  "atoi nptr =
     (case atoi_space nptr of
        None \<Rightarrow> None
      | Some [] \<Rightarrow> None
      | Some (c # cs) \<Rightarrow>
          (case (if c = 0x2D then map_option uminus (atoi_digits 0 cs)
                 else if c = 0x2B then atoi_digits 0 cs
                 else atoi_digits 0 (c # cs)) of
             None \<Rightarrow> None
           | Some v \<Rightarrow> if - INT_MAX - 1 \<le> v \<and> v \<le> INT_MAX then Some v else None))"

subsection \<open>Serial output and the voice recognition module\<close>

text \<open>
  What the sketch writes to \<open>Serial\<close> and what it asks of the module \<open>myVR\<close> is recorded
  as a trace of events, in the order of the calls. \<open>Serial.println()\<close> is
  \<open>Println []\<close>. The module's library is not part of the sketch: its answer to a request
  (the return value and the content of the reply buffer after the call) is a parameter
  of the model. A request with records holds the entries of \<open>records\<close> that the call
  hands over, the first \<open>paraNum - 1\<close> of them; the request for a training with
  signature holds the record, the offset in \<open>cmd\<close> that the signature pointer points to,
  and the signature length as the handler computes it.
\<close>

datatype base = DEC | HEX

datatype request =
    ReqTrain "u8 list"
  | ReqLoad "u8 list"
  | ReqClear
  | ReqCheckRecognizer
  | ReqCheckRecordAll
  | ReqCheckRecord "u8 list"
  | ReqTrainWithSignature u8 nat int
  | ReqCheckSignature u8
  | ReqRecognize int

datatype event =
    Print string
  | Println string
  | PrintNum int base
  | PrintlnNum int base
  | Write "u8 list"
  | Call request

type_synonym device = "request \<Rightarrow> int \<times> u8 list"

definition rd :: "u8 list \<Rightarrow> nat \<Rightarrow> u8 option" where
  "rd b i = (if i < length b then Some (b ! i) else None)"

subsection \<open>The print functions\<close>

function printSignature_for :: "u8 list \<Rightarrow> int \<Rightarrow> nat \<Rightarrow> event list option" where
  "printSignature_for b len i =
     (if int i < len then
        (case rd b i of
           None \<Rightarrow> None
         | Some c \<Rightarrow>
             (case printSignature_for b len (i + 1) of
                None \<Rightarrow> None
              | Some evs \<Rightarrow>
                  Some ((if c > 0x19 \<and> c < 0x7F then [Write [c]]
                         else [Print ''['', PrintNum (uint c) HEX, Print '']'']) @ evs)))
      else Some [])"
  by pat_completeness auto
termination
  by (relation "measure (\<lambda>(b, len, i). nat (len - int i))") auto

declare printSignature_for.simps [simp del]

definition printSignature :: "u8 list \<Rightarrow> int \<Rightarrow> event list option" where
  "printSignature b len = printSignature_for b len 0"

definition printSeperator :: "event list" where
  "printSeperator = replicate 80 (Write [0x2D]) @ [Println []]"

text \<open>The group mode byte, printed by \<open>printVR\<close> and \<open>printCheckRecognizer\<close>.\<close>

definition printVR :: "u8 list \<Rightarrow> event list option" where
  "printVR b =
     (case (rd b 0, rd b 1, rd b 2, rd b 3) of
        (Some b0, Some b1, Some b2, Some b3) \<Rightarrow>
          (case (if b3 > 0 then printSignature (drop 4 b) (uint b3) else Some [Print ''NONE'']) of
             None \<Rightarrow> None
           | Some sig \<Rightarrow>
               Some ([Println (''VR Index'' @ [CHR 0x09] @ ''Group'' @ [CHR 0x09] @ ''RecordNum''
                               @ [CHR 0x09] @ ''Signature''),
                      PrintNum (uint b2) DEC, Print [CHR 0x09, CHR 0x09]]
                     @ (if b0 = 0xFF then [Print ''NONE'']
                        else if and b0 0x80 \<noteq> 0
                          then [Print ''UG '', PrintNum (uint (and b0 (not 0x80))) DEC]
                        else [Print ''SG '', PrintNum (uint b0) DEC])
                     @ [Print [CHR 0x09], PrintNum (uint b1) DEC, Print [CHR 0x09, CHR 0x09]]
                     @ sig
                     @ [Println [CHR 0x0D, CHR 0x0A]]))
      | _ \<Rightarrow> None)"

fun printCheckRecognizer_for :: "u8 list \<Rightarrow> nat list \<Rightarrow> event list option" where
  "printCheckRecognizer_for b [] = Some []"
| "printCheckRecognizer_for b (i # is) =
     (case (rd b (i + 1), rd b 9, rd b 10) of
        (Some r, Some b9, Some b10) \<Rightarrow>
          (case printCheckRecognizer_for b is of
             None \<Rightarrow> None
           | Some evs \<Rightarrow>
               Some ([PrintNum (int i) DEC, Print [CHR 0x09, CHR 0x09]]
                     @ (if r = 0xFF then
                          (if b10 = 0xFF then [Print (''Unloaded'' @ [CHR 0x09] @ ''NONE'')]
                           else [Print (''Not Set'' @ [CHR 0x09, CHR 0x09] @ ''NONE'')])
                        else
                          [PrintNum (uint r) DEC, Print [CHR 0x09, CHR 0x09]]
                          @ (if and b9 (push_bit i 1) \<noteq> 0 then [Print ''Valid'']
                             else [Print ''Untrained'']))
                     @ [Println []] @ evs))
      | _ \<Rightarrow> None)"

definition printCheckRecognizer :: "u8 list \<Rightarrow> event list option" where
  "printCheckRecognizer b =
     (case (rd b 8, rd b 0, rd b 10) of
        (Some b8, Some b0, Some b10) \<Rightarrow>
          (case printCheckRecognizer_for b [0 ..< 7] of
             None \<Rightarrow> None
           | Some evs \<Rightarrow>
               Some ([Print ''All voice records in recognizer: '', PrintlnNum (uint b8) DEC,
                      Print ''Valid voice records in recognizer: '', PrintlnNum (uint b0) DEC]
                     @ (if b10 = 0xFF then [Println ''VR is not in group mode.'']
                        else if and b10 0x80 \<noteq> 0
                          then [Print ''VR is in user group mode:'',
                                PrintlnNum (uint (and b10 0x7F)) DEC]
                        else [Print ''VR is in system group mode:'', PrintlnNum (uint b10) DEC])
                     @ [Println (''VR Index'' @ [CHR 0x09] @ ''Record'' @ [CHR 0x09, CHR 0x09]
                                 @ ''Comment'')]
                     @ evs))
      | _ \<Rightarrow> None)"

function printCheckRecord_for :: "u8 list \<Rightarrow> int \<Rightarrow> nat \<Rightarrow> event list option" where
  "printCheckRecord_for b n i =
     (if int i < n then
        (case (rd b (i + 1), rd b (i + 2)) of
           (Some r, Some st) \<Rightarrow>
             (case printCheckRecord_for b n (i + 2) of
                None \<Rightarrow> None
              | Some evs \<Rightarrow>
                  Some ([PrintNum (uint r) DEC, Print ([CHR 0x09] @ ''-->'' @ [CHR 0x09]),
                         Print (if st = 0x01 then ''Trained''
                                else if st = 0x00 then ''Untrained''
                                else if st = 0xFF then ''Record value out of range''
                                else ''Unknown Stauts''),
                         Println []] @ evs))
         | _ \<Rightarrow> None)
      else Some [])"
  by pat_completeness auto
termination
  by (relation "measure (\<lambda>(b, n, i). nat (n - int i))") auto

declare printCheckRecord_for.simps [simp del]

definition printCheckRecord :: "u8 list \<Rightarrow> int \<Rightarrow> event list option" where
  "printCheckRecord b num =
     (case rd b 0 of
        None \<Rightarrow> None
      | Some b0 \<Rightarrow>
          (case printCheckRecord_for b (uint b0 * 2) 0 of
             None \<Rightarrow> None
           | Some evs \<Rightarrow>
               Some ([Print ''Check '', PrintNum (uint b0) DEC, Println '' records.'',
                      PrintNum num DEC,
                      Println (if num > 1 then '' records trained.'' else '' record trained.'')]
                     @ evs)))"

text \<open>
  \<open>printLoad\<close> and \<open>printTrain\<close> take the length as a \<open>uint8_t\<close>; the loop bound
  \<open>len - 1\<close> is computed in \<open>int\<close>.
\<close>

function printLoad_for :: "u8 list \<Rightarrow> int \<Rightarrow> nat \<Rightarrow> event list option" where
  "printLoad_for b len i =
     (if int i < len - 1 then
        (case (rd b (i + 1), rd b (i + 2)) of
           (Some r, Some st) \<Rightarrow>
             (case printLoad_for b len (i + 2) of
                None \<Rightarrow> None
              | Some evs \<Rightarrow>
                  Some ([Print ''Record '', PrintNum (uint r) DEC, Print [CHR 0x09],
                         Println (if st = 0 then ''Loaded''
                                  else if st = 0xFC then ''Record already in recognizer''
                                  else if st = 0xFD then ''Recognizer full''
                                  else if st = 0xFE then ''Record untrained''
                                  else if st = 0xFF then ''Value out of range''
                                  else ''Unknown status'')] @ evs))
         | _ \<Rightarrow> None)
      else Some [])"
  by pat_completeness auto
termination
  by (relation "measure (\<lambda>(b, len, i). nat (len - int i))") auto

declare printLoad_for.simps [simp del]

definition printLoad :: "u8 list \<Rightarrow> u8 \<Rightarrow> event list option" where
  "printLoad b len =
     (if len = 0 then Some [Println ''Load Successfully.'']
      else
        (case rd b 0 of
           None \<Rightarrow> None
         | Some b0 \<Rightarrow>
             (case printLoad_for b (uint len) 0 of
                None \<Rightarrow> None
              | Some evs \<Rightarrow> Some ([Print ''Load success: '', PrintlnNum (uint b0) DEC] @ evs))))"

function printTrain_for :: "u8 list \<Rightarrow> int \<Rightarrow> nat \<Rightarrow> event list option" where
  "printTrain_for b len i =
     (if int i < len - 1 then
        (case (rd b (i + 1), rd b (i + 2)) of
           (Some r, Some st) \<Rightarrow>
             (case printTrain_for b len (i + 2) of
                None \<Rightarrow> None
              | Some evs \<Rightarrow>
                  Some ([Print ''Record '', PrintNum (uint r) DEC, Print [CHR 0x09]]
                        @ (if st = 0 then [Println ''Trained'']
                           else if st = 0xFE then [Println ''Train Time Out'']
                           else if st = 0xFF then [Println ''Value out of range'']
                           else [Print ''Unknown status '', PrintlnNum (uint st) HEX])
                        @ evs))
         | _ \<Rightarrow> None)
      else Some [])"
  by pat_completeness auto
termination
  by (relation "measure (\<lambda>(b, len, i). nat (len - int i))") auto

declare printTrain_for.simps [simp del]

definition printTrain :: "u8 list \<Rightarrow> u8 \<Rightarrow> event list option" where
  "printTrain b len =
     (if len = 0 then Some [Println ''Train Finish.'']
      else
        (case rd b 0 of
           None \<Rightarrow> None
         | Some b0 \<Rightarrow>
             (case printTrain_for b (uint len) 0 of
                None \<Rightarrow> None
              | Some evs \<Rightarrow> Some ([Print ''Train success: '', PrintlnNum (uint b0) DEC] @ evs))))"

text \<open>
  \<open>Serial.write(buf+3, len-3)\<close>: \<open>len - 3\<close> is an \<open>int\<close>, and a negative one becomes a
  size that no buffer has.
\<close>

definition printSigTrain :: "u8 list \<Rightarrow> u8 \<Rightarrow> event list option" where
  "printSigTrain b len =
     (if len = 0 then Some [Println ''Train With Signature Finish.'']
      else
        (case (rd b 0, rd b 1, rd b 2) of
           (Some b0, Some b1, Some b2) \<Rightarrow>
             (if 3 \<le> uint len \<and> nat (uint len) \<le> length b then
                Some ([Print ''Success: '', PrintlnNum (uint b0) DEC,
                       Print ''Record '', PrintNum (uint b1) DEC, Print [CHR 0x09]]
                      @ (if b2 = 0 then [Println ''Trained'']
                         else if b2 = 0xF0 then [Println ''Trained, signature truncate'']
                         else if b2 = 0xFE then [Println ''Train Time Out'']
                         else if b2 = 0xFF then [Println ''Value out of range'']
                         else [Print ''Unknown status '', PrintlnNum (uint b2) HEX])
                      @ [Print ''SIG: '', Write (take (nat (uint len - 3)) (drop 3 b)),
                         Println []])
              else None)
         | _ \<Rightarrow> None))"

subsection \<open>The global variables\<close>

text \<open>
  \<open>paraAddr\<close> is \<open>None\<close> until \<open>findPara\<close> has assigned it. \<open>records\<close> has 7 entries,
  \<open>buf\<close> 200. \<open>serial\<close> is the trace of events so far.
\<close>

record state =
  paraAddr :: "nat option"
  records :: "u8 list"
  buf :: "u8 list"
  serial :: "event list"

definition emit :: "event list \<Rightarrow> state \<Rightarrow> state" where
  "emit evs s = s\<lparr>serial := serial s @ evs\<rparr>"

text \<open>A call of the module: the request is recorded, the reply buffer is overwritten.\<close>

definition call :: "device \<Rightarrow> request \<Rightarrow> state \<Rightarrow> int \<times> state" where
  "call dev req s = (fst (dev req), s\<lparr>buf := snd (dev req), serial := serial s @ [Call req]\<rparr>)"

text \<open>A call that has no reply buffer (\<open>clear\<close>).\<close>

definition call0 :: "device \<Rightarrow> request \<Rightarrow> state \<Rightarrow> int \<times> state" where
  "call0 dev req s = (fst (dev req), s\<lparr>serial := serial s @ [Call req]\<rparr>)"

subsection \<open>The command handlers\<close>

text \<open>
  The loop over the record arguments, which \<open>cmdTrain\<close>, \<open>cmdLoad\<close> and \<open>cmdRecord\<close>
  have in the same words:
  \<^verbatim>\<open>for(i=2; i<=paraNum; i++){ findPara(len, i, &paraAddr);
    records[i-2] = atoi((char *)paraAddr);
    if(records[i-2] == 0 && *paraAddr != '0'){ return -1; } }\<close>
  \<open>Return r s\<close> is the \<open>return\<close> inside the loop, \<open>Next s\<close> the end of the loop.
\<close>

datatype flow = Return int state | Next state

function records_for :: "u8 list \<Rightarrow> int \<Rightarrow> int \<Rightarrow> int \<Rightarrow> state \<Rightarrow> flow option" where
  "records_for cmd len paraNum i s =
     (if i \<le> paraNum then
        (case findPara cmd len i (paraAddr s) of
           None \<Rightarrow> None
         | Some (_, a) \<Rightarrow>
             (case a of
                None \<Rightarrow> None
              | Some p \<Rightarrow>
                  (case (atoi (drop p cmd), rd cmd p) of
                     (Some v, Some c) \<Rightarrow>
                       (if 2 \<le> i \<and> nat (i - 2) < length (records s) then
                          (let s = s\<lparr>paraAddr := a,
                                     records := (records s)[nat (i - 2) := word_of_int v]\<rparr>
                           in if records s ! nat (i - 2) = 0 \<and> c \<noteq> 0x30 then Some (Return (- 1) s)
                              else records_for cmd len paraNum (i + 1) s)
                        else None)
                   | _ \<Rightarrow> None)))
      else Some (Next s))"
  by pat_completeness auto
termination
  by (relation "measure (\<lambda>(cmd, len, paraNum, i, s). nat (paraNum + 1 - i))") auto

declare records_for.simps [simp del]

definition cmdTrain :: "device \<Rightarrow> u8 list \<Rightarrow> int \<Rightarrow> int \<Rightarrow> state \<Rightarrow> (int \<times> state) option" where
  "cmdTrain dev cmd len paraNum s =
     (if paraNum < 2 \<or> paraNum > 8 then Some (- 1, s)
      else
        (case records_for cmd len paraNum 2 s of
           None \<Rightarrow> None
         | Some (Return r s) \<Rightarrow> Some (r, s)
         | Some (Next s) \<Rightarrow>
             (case call dev (ReqTrain (take (nat (paraNum - 1)) (records s))) s of
                (ret, s) \<Rightarrow>
                  (if ret \<ge> 0 then
                     (case printTrain (buf s) (word_of_int ret) of
                        None \<Rightarrow> None
                      | Some evs \<Rightarrow> Some (0, emit evs s))
                   else Some (0, emit [Println ''Train failed.''] s)))))"

definition cmdLoad :: "device \<Rightarrow> u8 list \<Rightarrow> int \<Rightarrow> int \<Rightarrow> state \<Rightarrow> (int \<times> state) option" where
  "cmdLoad dev cmd len paraNum s =
     (if paraNum < 2 \<or> paraNum > 8 then Some (- 1, s)
      else
        (case records_for cmd len paraNum 2 s of
           None \<Rightarrow> None
         | Some (Return r s) \<Rightarrow> Some (r, s)
         | Some (Next s) \<Rightarrow>
             (case call dev (ReqLoad (take (nat (paraNum - 1)) (records s))) s of
                (ret, s) \<Rightarrow>
                  (let s = emit printSeperator s in
                   if ret \<ge> 0 then
                     (case printLoad (buf s) (word_of_int ret) of
                        None \<Rightarrow> None
                      | Some evs \<Rightarrow> Some (0, emit printSeperator (emit evs s)))
                   else Some (0, emit printSeperator (emit [Println ''Load failed.''] s))))))"

definition cmdClear :: "device \<Rightarrow> u8 list \<Rightarrow> int \<Rightarrow> int \<Rightarrow> state \<Rightarrow> (int \<times> state) option" where
  "cmdClear dev cmd len paraNum s =
     (if paraNum \<noteq> 1 then Some (- 1, s)
      else
        (case call0 dev ReqClear s of
           (ret, s) \<Rightarrow>
             (if ret = 0 then
                Some (0, emit (printSeperator @ [Println ''Recognizer cleared.''] @ printSeperator) s)
              else Some (0, s))))"

definition cmdVR :: "device \<Rightarrow> u8 list \<Rightarrow> int \<Rightarrow> int \<Rightarrow> state \<Rightarrow> (int \<times> state) option" where
  "cmdVR dev cmd len paraNum s =
     (if paraNum \<noteq> 1 then Some (- 1, s)
      else
        (case call dev ReqCheckRecognizer s of
           (ret, s) \<Rightarrow>
             (if ret \<le> 0 then Some (- 1, s)
              else
                (case printCheckRecognizer (buf s) of
                   None \<Rightarrow> None
                 | Some evs \<Rightarrow> Some (0, emit (printSeperator @ evs @ printSeperator) s)))))"

definition cmdRecord :: "device \<Rightarrow> u8 list \<Rightarrow> int \<Rightarrow> int \<Rightarrow> state \<Rightarrow> (int \<times> state) option" where
  "cmdRecord dev cmd len paraNum s =
     (if paraNum = 1 then
        (case call dev ReqCheckRecordAll s of
           (ret, s) \<Rightarrow>
             (if ret \<ge> 0 then
                (case printCheckRecord (buf s) ret of
                   None \<Rightarrow> None
                 | Some evs \<Rightarrow> Some (0, emit evs s))
              else Some (0, emit [Println ''Check record failed.''] s)))
      else if paraNum < 9 then
        (case records_for cmd len paraNum 2 s of
           None \<Rightarrow> None
         | Some (Return r s) \<Rightarrow> Some (r, s)
         | Some (Next s) \<Rightarrow>
             (case call dev (ReqCheckRecord (take (nat (paraNum - 1)) (records s))) s of
                (ret, s) \<Rightarrow>
                  (if ret \<ge> 0 then
                     (case printCheckRecord (buf s) ret of
                        None \<Rightarrow> None
                      | Some evs \<Rightarrow> Some (0, emit (printSeperator @ evs) s))
                   else Some (0, emit [Println ''Check record failed.''] s))))
      else Some (- 1, s))"

text \<open>
  \<open>sig_len +=( (unsigned int)lastAddr - (unsigned int)paraAddr )\<close>: the difference and the
  sum are taken in \<open>unsigned int\<close>, 16 bits wide on the AVR boards the sketch is
  written for, and the sum is converted back to \<open>int\<close>. Both pointers point into \<open>cmd\<close>,
  whose own address cancels in the difference.
\<close>

definition sig_len_add :: "int \<Rightarrow> nat \<Rightarrow> nat \<Rightarrow> int" where
  "sig_len_add sig_len l p =
     sint ((word_of_int sig_len :: 16 word) + (word_of_nat l - word_of_nat p))"

text \<open>\<open>lastAddr\<close> is a local variable with no initial value.\<close>

definition cmdSigTrain :: "device \<Rightarrow> u8 list \<Rightarrow> int \<Rightarrow> int \<Rightarrow> state \<Rightarrow> (int \<times> state) option" where
  "cmdSigTrain dev cmd len paraNum s =
     (if paraNum < 2 then Some (- 1, s)
      else
        (case findPara cmd len 2 (paraAddr s) of
           None \<Rightarrow> None
         | Some (_, a) \<Rightarrow>
             (case a of
                None \<Rightarrow> None
              | Some p \<Rightarrow>
                  (case (atoi (drop p cmd), rd cmd p) of
                     (Some v, Some c) \<Rightarrow>
                       (if 0 < length (records s) then
                          (let s = s\<lparr>paraAddr := a, records := (records s)[0 := word_of_int v]\<rparr>
                           in if records s ! 0 = 0 \<and> c \<noteq> 0x30 then Some (- 1, s)
                              else
                                (case (findPara cmd len 3 (paraAddr s),
                                       findPara cmd len paraNum None) of
                                   (Some (_, a3), Some (sig_len, lastAddr)) \<Rightarrow>
                                     (case (a3, lastAddr) of
                                        (Some p3, Some l) \<Rightarrow>
                                          (case call dev (ReqTrainWithSignature (records s ! 0) p3
                                                            (sig_len_add sig_len l p3))
                                                  (s\<lparr>paraAddr := a3\<rparr>) of
                                             (ret, s) \<Rightarrow>
                                               (if ret \<ge> 0 then
                                                  (case printSigTrain (buf s) (word_of_int ret) of
                                                     None \<Rightarrow> None
                                                   | Some evs \<Rightarrow> Some (0, emit evs s))
                                                else Some (0, emit [Println ''Train failed.''] s)))
                                      | _ \<Rightarrow> None)
                                 | _ \<Rightarrow> None))
                        else None)
                   | _ \<Rightarrow> None))))"

definition cmdGetSig :: "device \<Rightarrow> u8 list \<Rightarrow> int \<Rightarrow> int \<Rightarrow> state \<Rightarrow> (int \<times> state) option" where
  "cmdGetSig dev cmd len paraNum s =
     (if paraNum \<noteq> 2 then Some (- 1, s)
      else
        (case findPara cmd len 2 (paraAddr s) of
           None \<Rightarrow> None
         | Some (_, a) \<Rightarrow>
             (case a of
                None \<Rightarrow> None
              | Some p \<Rightarrow>
                  (case (atoi (drop p cmd), rd cmd p) of
                     (Some v, Some c) \<Rightarrow>
                       (if 0 < length (records s) then
                          (let s = s\<lparr>paraAddr := a, records := (records s)[0 := word_of_int v]\<rparr>
                           in if records s ! 0 = 0 \<and> c \<noteq> 0x30 then Some (- 1, s)
                              else
                                (case call dev (ReqCheckSignature (records s ! 0)) s of
                                   (ret, s) \<Rightarrow>
                                     (if ret = 0 then
                                        Some (0, emit [Println ''Signature isn't set.''] s)
                                      else if ret > 0 then
                                        (case printSignature (buf s) ret of
                                           None \<Rightarrow> None
                                         | Some evs \<Rightarrow>
                                             Some (0, emit ([Print ''Signature:''] @ evs
                                                            @ [Println []]) s))
                                      else Some (0, emit [Println ''Get sig error.''] s))))
                        else None)
                   | _ \<Rightarrow> None))))"

definition cmdTest :: "device \<Rightarrow> u8 list \<Rightarrow> int \<Rightarrow> int \<Rightarrow> state \<Rightarrow> (int \<times> state) option" where
  "cmdTest dev cmd len paraNum s = Some (0, emit [Println ''TEST is not supported.''] s)"

subsection \<open>The command tables and the dispatch in loop\<close>

definition CMD_NUM :: nat where
  "CMD_NUM = 8"

text \<open>An entry of \<open>cmdList\<close> is an array of 10 bytes, the word and zeros after it.\<close>

definition cmdList :: "u8 list list" where
  "cmdList = map (\<lambda>w. bytes w @ replicate (10 - length w) 0)
     [''train'', ''load'', ''clear'', ''vr'', ''record'', ''sigtrain'', ''getsig'', ''test'']"

definition cmdLen :: "int list" where
  "cmdLen = [5, 4, 5, 2, 6, 8, 6, 4]"

definition cmdFunction ::
  "(device \<Rightarrow> u8 list \<Rightarrow> int \<Rightarrow> int \<Rightarrow> state \<Rightarrow> (int \<times> state) option) list" where
  "cmdFunction = [cmdTrain, cmdLoad, cmdClear, cmdVR, cmdRecord, cmdSigTrain, cmdGetSig, cmdTest]"

text \<open>
  The \<open>for\<close> loop of \<open>loop\<close> over the command table. The result is the value of \<open>i\<close>
  after the loop (\<open>CMD_NUM\<close> when no entry matched) and the state.
\<close>

function loop_for ::
  "device \<Rightarrow> u8 list \<Rightarrow> int \<Rightarrow> int \<Rightarrow> int \<Rightarrow> nat \<Rightarrow> state \<Rightarrow> (nat \<times> state) option" where
  "loop_for dev cmd len paraNum paraLen i s =
     (if i < CMD_NUM then
        (if paraLen = cmdLen ! i then
           (case paraAddr s of
              None \<Rightarrow> None
            | Some p \<Rightarrow>
                (case compareCMD (drop p cmd) (cmdList ! i) paraLen of
                   None \<Rightarrow> None
                 | Some c \<Rightarrow>
                     (if c = 0 then
                        (case (cmdFunction ! i) dev cmd len paraNum s of
                           None \<Rightarrow> None
                         | Some (r, s) \<Rightarrow>
                             Some (i, if r \<noteq> 0 then emit [Println ''Command Format Error!''] s
                                      else s))
                      else loop_for dev cmd len paraNum paraLen (i + 1) s)))
         else loop_for dev cmd len paraNum paraLen (i + 1) s)
      else Some (i, s))"
  by pat_completeness auto
termination
  by (relation "measure (\<lambda>(dev, cmd, len, paraNum, paraLen, i, s). CMD_NUM - i)") auto

declare loop_for.simps [simp del]

text \<open>
  \<open>loop\<close>, from the return of \<open>receiveCMD\<close> on: \<open>len\<close> is what \<open>receiveCMD\<close> returned
  and \<open>cmd\<close> the buffer it filled.
\<close>

definition loop :: "device \<Rightarrow> u8 list \<Rightarrow> int \<Rightarrow> state \<Rightarrow> state option" where
  "loop dev cmd len s =
     (case
        (if len > 0 then
           (case checkCMD cmd len of
              None \<Rightarrow> None
            | Some c \<Rightarrow>
                (if c = 0 then
                   (case checkParaNum cmd len of
                      None \<Rightarrow> None
                    | Some paraNum \<Rightarrow>
                        (if nat len \<le> length cmd then
                           (let s = emit [Write (take (nat len) cmd)] s in
                            case findPara cmd len 1 (paraAddr s) of
                              None \<Rightarrow> None
                            | Some (paraLen, a) \<Rightarrow>
                                (case loop_for dev cmd len paraNum paraLen 0 (s\<lparr>paraAddr := a\<rparr>) of
                                   None \<Rightarrow> None
                                 | Some (i, s) \<Rightarrow>
                                     Some (if i = CMD_NUM then emit [Println ''Unkonwn command''] s
                                           else s)))
                         else None))
                 else Some (emit [Println ''Command format error''] s)))
         else Some s) of
        None \<Rightarrow> None
      | Some s \<Rightarrow>
          (case call dev (ReqRecognize 50) s of
             (ret, s) \<Rightarrow>
               (if ret > 0 then
                  (case printVR (buf s) of
                     None \<Rightarrow> None
                   | Some evs \<Rightarrow> Some (emit evs s))
                else Some s)))"

text \<open>
  The state when \<open>loop\<close> runs first: the globals are zero, and the banner that the
  sketch prints at its start is the only output.
\<close>

definition initial :: state where
  \<open>initial = \<lparr>paraAddr = None, records = replicate 7 0, buf = replicate 200 0,
     serial = [Println ''Elechouse Voice Recognition V2 Module "train" sample.'']\<rparr>\<close>

subsection \<open>Two modules for the scenarios\<close>

text \<open>
  A module that answers every request with 0 and an empty reply, and one whose every
  operation fails.
\<close>

definition module_ok :: device where
  "module_ok req = (0, [])"

definition module_failing :: device where
  "module_failing req = (- 1, [])"

section \<open>Command lines made of parameters\<close>

text \<open>
  The lines that the properties speak of: a command word and arguments, each a run of
  printable bytes other than the space, one space between two of them and the newline
  at the end.
\<close>

definition separator :: "u8 \<Rightarrow> bool" where
  "separator c \<longleftrightarrow> c = 0x09 \<or> c = 0x20 \<or> c = 0x0D \<or> c = 0x0A"

definition token :: "u8 list \<Rightarrow> bool" where
  "token t \<longleftrightarrow> t \<noteq> [] \<and> list_all (\<lambda>c. 0x20 < c \<and> c < 0x7F) t"

fun spaced :: "u8 list list \<Rightarrow> u8 list" where
  "spaced [] = []"
| "spaced (t # ts) = 0x20 # t @ spaced ts"

definition cmdline :: "u8 list \<Rightarrow> u8 list list \<Rightarrow> u8 list" where
  "cmdline w args = w @ spaced args @ [0x0A]"

text \<open>The offset of parameter \<open>k\<close> in the line, the command word being parameter 0.\<close>

fun offset :: "u8 list list \<Rightarrow> nat \<Rightarrow> nat" where
  "offset ts 0 = 0"
| "offset [] (Suc k) = 0"
| "offset (t # ts) (Suc k) = length t + 1 + offset ts k"

text \<open>The decimal numeral of a number, most significant digit first.\<close>

fun decimal :: "nat \<Rightarrow> u8 list" where
  "decimal n = (if n < 10 then [0x30 + of_nat n] else decimal (n div 10) @ [0x30 + of_nat (n mod 10)])"

declare decimal.simps [simp del]

text \<open>
  The loop over the record arguments, told on the parameters instead of the bytes:
  \<open>p\<close> is the offset of the next parameter, \<open>j\<close> its index in \<open>records\<close>, and each
  parameter comes with the value that \<open>atoi\<close> returns for it.
\<close>

fun store :: "nat \<Rightarrow> nat \<Rightarrow> (u8 list \<times> int) list \<Rightarrow> state \<Rightarrow> flow" where
  "store p j [] s = Next s"
| "store p j ((t, v) # tvs) s =
     (let s = s\<lparr>paraAddr := Some p, records := (records s)[j := word_of_int v]\<rparr>
      in if (word_of_int v :: u8) = 0 \<and> hd t \<noteq> 0x30 then Return (- 1) s
         else store (p + length t + 1) (j + 1) tvs s)"

text \<open>
  The reply of the module can be printed: the module has failed, or the print function
  of the request finds every byte that it reads inside the reply buffer.
\<close>

definition reply_ok :: "device \<Rightarrow> request \<Rightarrow> bool" where
  "reply_ok dev req \<longleftrightarrow>
     fst (dev req) < 0 \<or>
     (case req of
        ReqTrain _ \<Rightarrow> printTrain (snd (dev req)) (word_of_int (fst (dev req))) \<noteq> None
      | ReqLoad _ \<Rightarrow> printLoad (snd (dev req)) (word_of_int (fst (dev req))) \<noteq> None
      | ReqCheckRecord _ \<Rightarrow> printCheckRecord (snd (dev req)) (fst (dev req)) \<noteq> None
      | ReqCheckRecordAll \<Rightarrow> printCheckRecord (snd (dev req)) (fst (dev req)) \<noteq> None
      | ReqTrainWithSignature _ _ _ \<Rightarrow>
          printSigTrain (snd (dev req)) (word_of_int (fst (dev req))) \<noteq> None
      | ReqCheckSignature _ \<Rightarrow>
          fst (dev req) = 0 \<or> printSignature (snd (dev req)) (fst (dev req)) \<noteq> None
      | ReqCheckRecognizer \<Rightarrow> fst (dev req) = 0 \<or> printCheckRecognizer (snd (dev req)) \<noteq> None
      | ReqRecognize _ \<Rightarrow> fst (dev req) = 0 \<or> printVR (snd (dev req)) \<noteq> None
      | ReqClear \<Rightarrow> True)"

text \<open>
  The two ends of a handler. \<open>rejected\<close>: it has returned -1, for which \<open>loop\<close> prints
  the command format error, before any output and any request. \<open>delegated\<close>: it has
  returned 0, and the first thing it did was the request \<open>req\<close> to the module.
\<close>

definition rejected :: "state \<Rightarrow> (int \<times> state) option \<Rightarrow> bool" where
  "rejected s r \<longleftrightarrow> (case r of None \<Rightarrow> False | Some (c, s') \<Rightarrow> c = - 1 \<and> serial s' = serial s)"

definition delegated :: "state \<Rightarrow> request \<Rightarrow> (int \<times> state) option \<Rightarrow> bool" where
  "delegated s req r \<longleftrightarrow>
     (case r of
        None \<Rightarrow> False
      | Some (c, s') \<Rightarrow> c = 0 \<and> take (Suc (length (serial s))) (serial s') = serial s @ [Call req])"

section \<open>Lemmas\<close>

subsection \<open>Parameters and separators\<close>

lemma token_not_empty: "token t \<Longrightarrow> t \<noteq> []"
  by (simp add: token_def)

lemma token_not_separator: "token t \<Longrightarrow> c \<in> set t \<Longrightarrow> \<not> separator c"
  by (auto simp: token_def separator_def list_all_iff)

lemma separator_not_digit: "separator c \<Longrightarrow> \<not> isdigit c"
  by (auto simp: separator_def isdigit_def)

subsection \<open>The inner loops on a run of bytes\<close>

lemma skipPara_while_run:
  assumes "\<forall>c\<in>set t. \<not> separator c" and "separator c"
  shows "skipPara_while (pre @ t @ c # rest) (length pre) = Some (length pre + length t)"
  using assms
proof (induction t arbitrary: pre)
  case Nil
  then show ?case
    by (auto simp add: skipPara_while.simps [of _ "length pre"] separator_def)
next
  case (Cons x xs)
  from Cons.prems have x: "\<not> separator x" by simp
  from Cons.IH [of "pre @ [x]"] Cons.prems
  have "skipPara_while (pre @ x # xs @ c # rest) (Suc (length pre)) = Some (Suc (length pre) + length xs)"
    by simp
  with x show ?case
    by (simp add: skipPara_while.simps [of _ "length pre"] separator_def)
qed

lemma paraLen_while_run:
  assumes "\<forall>c\<in>set t. \<not> separator c" and "separator c"
  shows "paraLen_while (pre @ t @ c # rest) (length pre) n = Some (n + int (length t))"
  using assms
proof (induction t arbitrary: pre n)
  case Nil
  then show ?case
    by (auto simp add: paraLen_while.simps [of _ "length pre"] separator_def)
next
  case (Cons x xs)
  from Cons.prems have x: "\<not> separator x" by simp
  from Cons.IH [of "pre @ [x]" "n + 1"] Cons.prems
  have "paraLen_while (pre @ x # xs @ c # rest) (Suc (length pre)) (n + 1) = Some (n + 1 + int (length xs))"
    by simp
  with x show ?case
    by (simp add: paraLen_while.simps [of _ "length pre"] separator_def)
qed

subsection \<open>One step of the outer loops\<close>

lemma findPara_for_found:
  "\<lbrakk>int i < len; i < length cmd; cmd ! i \<noteq> 0x09; cmd ! i \<noteq> 0x20; cnt < INT_MAX;
    paraIndex = cnt + 1; paraLen_while cmd i 0 = Some n\<rbrakk>
   \<Longrightarrow> findPara_for cmd len paraIndex a i cnt = Some (n, Some i)"
  by (subst findPara_for.simps) (simp add: Let_def)

lemma findPara_for_open:
  "\<lbrakk>int i < len; i < length cmd; cmd ! i \<noteq> 0x09; cmd ! i \<noteq> 0x20; cnt < INT_MAX;
    paraIndex \<noteq> cnt + 1; skipPara_while cmd i = Some j\<rbrakk>
   \<Longrightarrow> findPara_for cmd len paraIndex a i cnt = findPara_for cmd len paraIndex a j (cnt + 1)"
  by (subst findPara_for.simps) (simp add: Let_def)

lemma findPara_for_blank:
  "\<lbrakk>int i < len; i < length cmd; cmd ! i = 0x09 \<or> cmd ! i = 0x20\<rbrakk>
   \<Longrightarrow> findPara_for cmd len paraIndex a i cnt = findPara_for cmd len paraIndex a (i + 1) cnt"
  by (subst findPara_for.simps) (auto simp add: Let_def)

lemma checkParaNum_for_end:
  "\<not> int i < len \<Longrightarrow> checkParaNum_for cmd len i cnt = Some cnt"
  by (subst checkParaNum_for.simps) simp

lemma checkParaNum_for_open:
  "\<lbrakk>int i < len; i < length cmd; cmd ! i \<noteq> 0x09; cmd ! i \<noteq> 0x20; cmd ! i \<noteq> 0x0D;
    cmd ! i \<noteq> 0x0A; skipPara_while cmd i = Some j\<rbrakk>
   \<Longrightarrow> checkParaNum_for cmd len i cnt = checkParaNum_for cmd len (j + 1) (cnt + 1)"
  by (subst checkParaNum_for.simps) simp

subsection \<open>findPara and checkParaNum on a command line\<close>

lemma findPara_for_tokens:
  assumes "token t" and "\<forall>u\<in>set ts. token u"
    and "k \<le> length ts" and "cnt + int k < INT_MAX" and "0 \<le> cnt"
  shows "findPara_for (pre @ t @ spaced ts @ [0x0A]) (int (length (pre @ t @ spaced ts @ [0x0A])))
           (cnt + 1 + int k) a (length pre) cnt
         = Some (int (length ((t # ts) ! k)), Some (length pre + offset (t # ts) k))"
  using assms
proof (induction ts arbitrary: pre t k cnt)
  case Nil
  then have k: "k = 0" by simp
  from Nil.prems(1) have ns: "\<forall>c\<in>set t. \<not> separator c" and ne: "t \<noteq> []"
    by (auto dest: token_not_separator token_not_empty)
  from ne obtain x xs where t: "t = x # xs" by (cases t) auto
  with ns have x: "x \<noteq> 0x09" "x \<noteq> 0x20" by (auto simp: separator_def)
  have pl: "paraLen_while (pre @ t @ 0x0A # []) (length pre) 0 = Some (0 + int (length t))"
    by (rule paraLen_while_run [OF ns]) (simp add: separator_def)
  show ?case using Nil.prems(4) x pl
    by (simp add: k findPara_for.simps [of _ _ _ _ "length pre"] t)
next
  case (Cons u us)
  from Cons.prems(1) have ns: "\<forall>c\<in>set t. \<not> separator c" and ne: "t \<noteq> []"
    by (auto dest: token_not_separator token_not_empty)
  from ne obtain x xs where t: "t = x # xs" by (cases t) auto
  with ns have x: "x \<noteq> 0x09" "x \<noteq> 0x20" by (auto simp: separator_def)
  let ?cmd = "pre @ t @ spaced (u # us) @ [0x0A]"
  have cmd: "?cmd = pre @ t @ 0x20 # (u @ spaced us @ [0x0A])" by simp
  show ?case
  proof (cases k)
    case 0
    have pl: "paraLen_while ?cmd (length pre) 0 = Some (0 + int (length t))"
      unfolding cmd by (rule paraLen_while_run [OF ns]) (simp add: separator_def)
    show ?thesis using Cons.prems(4) x pl
      by (simp add: 0 findPara_for.simps [of _ _ _ _ "length pre"] t)
  next
    case (Suc k')
    have sk: "skipPara_while ?cmd (length pre) = Some (length pre + length t)"
      unfolding cmd by (rule skipPara_while_run [OF ns]) (simp add: separator_def)
    have step1: "findPara_for ?cmd (int (length ?cmd)) (cnt + 1 + int k) a (length pre) cnt
        = findPara_for ?cmd (int (length ?cmd)) (cnt + 1 + int k) a (length pre + length t) (cnt + 1)"
      using Cons.prems(4) x sk Suc
      by (simp add: findPara_for.simps [of _ _ _ _ "length pre" cnt] t)
    have at: "?cmd ! (length pre + length t) = 0x20"
      by (simp add: nth_append)
    have step2: "findPara_for ?cmd (int (length ?cmd)) (cnt + 1 + int k) a (length pre + length t) (cnt + 1)
        = findPara_for ?cmd (int (length ?cmd)) (cnt + 1 + int k) a (length pre + length t + 1) (cnt + 1)"
      using at by (simp add: findPara_for.simps [of _ _ _ _ "length pre + length t"])
    have ih: "findPara_for ((pre @ t @ [0x20]) @ u @ spaced us @ [0x0A])
                (int (length ((pre @ t @ [0x20]) @ u @ spaced us @ [0x0A])))
                ((cnt + 1) + 1 + int k') a (length (pre @ t @ [0x20])) (cnt + 1)
              = Some (int (length ((u # us) ! k')), Some (length (pre @ t @ [0x20]) + offset (u # us) k'))"
      using Cons.prems Suc by (intro Cons.IH) auto
    from ih have "findPara_for ?cmd (int (length ?cmd)) (cnt + 1 + int k) a (length pre + length t + 1) (cnt + 1)
        = Some (int (length ((t # u # us) ! k)), Some (length pre + offset (t # u # us) k))"
      by (simp add: Suc add.commute add.left_commute)
    with step1 step2 show ?thesis by simp
  qed
qed

lemma findPara_for_stuck:
  assumes "i < length cmd" and "int i < len" and "cmd ! i = 0x0D \<or> cmd ! i = 0x0A"
    and "cnt < paraIndex" and "paraIndex \<le> INT_MAX"
  shows "findPara_for cmd len paraIndex a i cnt = Some (0, Some i)"
  using assms(4)
proof (induction "nat (paraIndex - cnt)" arbitrary: cnt)
  case 0
  then show ?case by simp
next
  case (Suc n)
  from assms(1,3) have pl: "paraLen_while cmd i 0 = Some 0"
    by (auto simp: paraLen_while.simps [of cmd i])
  from assms(1,3) have sk: "skipPara_while cmd i = Some i"
    by (auto simp: skipPara_while.simps [of cmd i])
  from assms(3) have dt: "cmd ! i \<noteq> 0x09" "cmd ! i \<noteq> 0x20" by auto
  from Suc.prems assms(5) have lt: "cnt < INT_MAX" by simp
  show ?case
  proof (cases "paraIndex = cnt + 1")
    case True
    with assms(1,2) dt lt pl show ?thesis
      by (intro findPara_for_found)
  next
    case False
    with Suc.prems have "cnt + 1 < paraIndex" by simp
    moreover from Suc.hyps(2) have "n = nat (paraIndex - (cnt + 1))" by simp
    ultimately have "findPara_for cmd len paraIndex a i (cnt + 1) = Some (0, Some i)"
      by (rule Suc.hyps(1) [rotated])
    moreover have "findPara_for cmd len paraIndex a i cnt = findPara_for cmd len paraIndex a i (cnt + 1)"
      using assms(1,2) dt lt sk False by (intro findPara_for_open)
    ultimately show ?thesis by simp
  qed
qed

lemma findPara_for_tokens_beyond:
  assumes "token t" and "\<forall>u\<in>set ts. token u"
    and "length ts < k" and "cnt + int k < INT_MAX" and "0 \<le> cnt"
  shows "findPara_for (pre @ t @ spaced ts @ [0x0A]) (int (length (pre @ t @ spaced ts @ [0x0A])))
           (cnt + 1 + int k) a (length pre) cnt
         = Some (0, Some (length pre + length t + length (spaced ts)))"
  using assms
proof (induction ts arbitrary: pre t k cnt)
  case Nil
  from Nil.prems(1) have ns: "\<forall>c\<in>set t. \<not> separator c" and ne: "t \<noteq> []"
    by (auto dest: token_not_separator token_not_empty)
  from ne obtain x xs where t: "t = x # xs" by (cases t) auto
  with ns have x: "x \<noteq> 0x09" "x \<noteq> 0x20" by (auto simp: separator_def)
  let ?cmd = "pre @ t @ spaced [] @ [0x0A]"
  have sk: "skipPara_while ?cmd (length pre) = Some (length pre + length t)"
    using skipPara_while_run [OF ns, of "0x0A" pre "[]"] by (simp add: separator_def)
  have step: "findPara_for ?cmd (int (length ?cmd)) (cnt + 1 + int k) a (length pre) cnt
      = findPara_for ?cmd (int (length ?cmd)) (cnt + 1 + int k) a (length pre + length t) (cnt + 1)"
    using Nil.prems(3,4) x sk
    by (intro findPara_for_open) (simp_all add: t)
  have "findPara_for ?cmd (int (length ?cmd)) (cnt + 1 + int k) a (length pre + length t) (cnt + 1)
      = Some (0, Some (length pre + length t))"
    using Nil.prems(3,4) by (intro findPara_for_stuck) (auto simp: nth_append)
  with step show ?case by simp
next
  case (Cons u us)
  from Cons.prems(1) have ns: "\<forall>c\<in>set t. \<not> separator c" and ne: "t \<noteq> []"
    by (auto dest: token_not_separator token_not_empty)
  from ne obtain x xs where t: "t = x # xs" by (cases t) auto
  with ns have x: "x \<noteq> 0x09" "x \<noteq> 0x20" by (auto simp: separator_def)
  let ?cmd = "pre @ t @ spaced (u # us) @ [0x0A]"
  have cmd: "?cmd = pre @ t @ 0x20 # (u @ spaced us @ [0x0A])" by simp
  from Cons.prems(3) obtain k' where k: "k = Suc k'" and k': "length us < k'"
    by (cases k) auto
  have sk: "skipPara_while ?cmd (length pre) = Some (length pre + length t)"
    unfolding cmd by (rule skipPara_while_run [OF ns]) (simp add: separator_def)
  have step1: "findPara_for ?cmd (int (length ?cmd)) (cnt + 1 + int k) a (length pre) cnt
      = findPara_for ?cmd (int (length ?cmd)) (cnt + 1 + int k) a (length pre + length t) (cnt + 1)"
    using Cons.prems(4) x sk k
    by (simp add: findPara_for.simps [of _ _ _ _ "length pre" cnt] t)
  have at: "?cmd ! (length pre + length t) = 0x20"
    by (simp add: nth_append)
  have step2: "findPara_for ?cmd (int (length ?cmd)) (cnt + 1 + int k) a (length pre + length t) (cnt + 1)
      = findPara_for ?cmd (int (length ?cmd)) (cnt + 1 + int k) a (length pre + length t + 1) (cnt + 1)"
    using at by (simp add: findPara_for.simps [of _ _ _ _ "length pre + length t"])
  have ih: "findPara_for ((pre @ t @ [0x20]) @ u @ spaced us @ [0x0A])
              (int (length ((pre @ t @ [0x20]) @ u @ spaced us @ [0x0A])))
              ((cnt + 1) + 1 + int k') a (length (pre @ t @ [0x20])) (cnt + 1)
            = Some (0, Some (length (pre @ t @ [0x20]) + length u + length (spaced us)))"
    using Cons.prems k k' by (intro Cons.IH) auto
  from ih have "findPara_for ?cmd (int (length ?cmd)) (cnt + 1 + int k) a (length pre + length t + 1) (cnt + 1)
      = Some (0, Some (length pre + length t + length (spaced (u # us))))"
    by (simp add: k add.commute add.left_commute)
  with step1 step2 show ?case by simp
qed

lemma checkParaNum_for_tokens:
  assumes "token t" and "\<forall>u\<in>set ts. token u"
  shows "checkParaNum_for (pre @ t @ spaced ts @ [0x0A]) (int (length (pre @ t @ spaced ts @ [0x0A])))
           (length pre) cnt
         = Some (cnt + 1 + int (length ts))"
  using assms
proof (induction ts arbitrary: pre t cnt)
  case Nil
  from Nil.prems(1) have ns: "\<forall>c\<in>set t. \<not> separator c" and ne: "t \<noteq> []"
    by (auto dest: token_not_separator token_not_empty)
  from ne obtain x xs where t: "t = x # xs" by (cases t) auto
  with ns have x: "x \<noteq> 0x09" "x \<noteq> 0x20" "x \<noteq> 0x0D" "x \<noteq> 0x0A" by (auto simp: separator_def)
  let ?cmd = "pre @ t @ spaced [] @ [0x0A]"
  have sk: "skipPara_while ?cmd (length pre) = Some (length pre + length t)"
    using skipPara_while_run [OF ns, of "0x0A" pre "[]"] by (simp add: separator_def)
  have "checkParaNum_for ?cmd (int (length ?cmd)) (length pre + length t + 1) (cnt + 1) = Some (cnt + 1)"
    by (rule checkParaNum_for_end) simp
  moreover have "checkParaNum_for ?cmd (int (length ?cmd)) (length pre) cnt
      = checkParaNum_for ?cmd (int (length ?cmd)) (length pre + length t + 1) (cnt + 1)"
    using x sk by (intro checkParaNum_for_open) (simp_all add: t)
  ultimately show ?case by simp
next
  case (Cons u us)
  from Cons.prems(1) have ns: "\<forall>c\<in>set t. \<not> separator c" and ne: "t \<noteq> []"
    by (auto dest: token_not_separator token_not_empty)
  from ne obtain x xs where t: "t = x # xs" by (cases t) auto
  with ns have x: "x \<noteq> 0x09" "x \<noteq> 0x20" "x \<noteq> 0x0D" "x \<noteq> 0x0A" by (auto simp: separator_def)
  let ?cmd = "pre @ t @ spaced (u # us) @ [0x0A]"
  have cmd: "?cmd = pre @ t @ 0x20 # (u @ spaced us @ [0x0A])" by simp
  have sk: "skipPara_while ?cmd (length pre) = Some (length pre + length t)"
    unfolding cmd by (rule skipPara_while_run [OF ns]) (simp add: separator_def)
  have ih: "checkParaNum_for ((pre @ t @ [0x20]) @ u @ spaced us @ [0x0A])
              (int (length ((pre @ t @ [0x20]) @ u @ spaced us @ [0x0A])))
              (length (pre @ t @ [0x20])) (cnt + 1)
            = Some ((cnt + 1) + 1 + int (length us))"
    using Cons.prems by (intro Cons.IH) auto
  then have "checkParaNum_for ?cmd (int (length ?cmd)) (length pre + length t + 1) (cnt + 1)
            = Some (cnt + 1 + int (length (u # us)))"
    by (simp add: add.commute add.left_commute)
  moreover have "checkParaNum_for ?cmd (int (length ?cmd)) (length pre) cnt
      = checkParaNum_for ?cmd (int (length ?cmd)) (length pre + length t + 1) (cnt + 1)"
    using x sk by (intro checkParaNum_for_open) (simp_all add: t)
  ultimately show ?case by simp
qed

subsection \<open>Offsets of the parameters\<close>

lemma offset_Suc: "k < length ts \<Longrightarrow> offset ts (Suc k) = offset ts k + length (ts ! k) + 1"
proof (induction ts arbitrary: k)
  case Nil
  then show ?case by simp
next
  case (Cons t ts)
  then show ?case by (cases k) auto
qed

lemma offset_last:
  "offset (w # args) (length args) + length ((w # args) ! length args) = length w + length (spaced args)"
  by (induction args arbitrary: w) auto

lemma drop_offset:
  "k \<le> length ts \<Longrightarrow>
   \<exists>c rest. separator c \<and> drop (offset (t # ts) k) (t @ spaced ts @ [0x0A]) = (t # ts) ! k @ c # rest"
proof (induction ts arbitrary: t k)
  case Nil
  then show ?case by (simp add: separator_def)
next
  case (Cons u us)
  show ?case
  proof (cases k)
    case 0
    then show ?thesis by (simp add: separator_def)
  next
    case (Suc k')
    with Cons.prems have "k' \<le> length us" by simp
    from Cons.IH [OF this, of u] Suc show ?thesis by simp
  qed
qed

subsection \<open>atoi on a parameter\<close>

lemma digit_byte:
  assumes "d < 10"
  shows "isdigit (0x30 + of_nat d)" and "uint ((0x30 + of_nat d :: u8) - 0x30) = int d"
    and "\<not> isspace (0x30 + of_nat d)" and "(0x30 + of_nat d :: u8) \<noteq> 0x2D"
    and "(0x30 + of_nat d :: u8) \<noteq> 0x2B"
    and "0x20 < (0x30 + of_nat d :: u8)" and "(0x30 + of_nat d :: u8) < 0x7F"
    and "(0x30 + of_nat d :: u8) = 0x30 \<longleftrightarrow> d = 0"
    and "uint (of_nat d :: u8) = int d" and "(of_nat d :: u8) = 0 \<longleftrightarrow> d = 0"
proof -
  from assms have "d \<in> {0, 1, 2, 3, 4, 5, 6, 7, 8, 9}" by auto
  then show "isdigit (0x30 + of_nat d)" and "uint ((0x30 + of_nat d :: u8) - 0x30) = int d"
    and "\<not> isspace (0x30 + of_nat d)" and "(0x30 + of_nat d :: u8) \<noteq> 0x2D"
    and "(0x30 + of_nat d :: u8) \<noteq> 0x2B"
    and "0x20 < (0x30 + of_nat d :: u8)" and "(0x30 + of_nat d :: u8) < 0x7F"
    and "(0x30 + of_nat d :: u8) = 0x30 \<longleftrightarrow> d = 0"
    and "uint (of_nat d :: u8) = int d" and "(of_nat d :: u8) = 0 \<longleftrightarrow> d = 0"
    by (auto simp: isdigit_def isspace_def)
qed

lemma atoi_digits_append:
  "list_all isdigit xs \<Longrightarrow>
   atoi_digits n (xs @ ys) = atoi_digits (foldl (\<lambda>n c. n * 10 + uint (c - 0x30)) n xs) ys"
  by (induction xs arbitrary: n) auto

lemma atoi_digits_end:
  "\<not> isdigit c \<Longrightarrow> \<not> isdigit c' \<Longrightarrow>
   atoi_digits n (xs @ c # rest) = atoi_digits n (xs @ c' # rest')"
  by (induction xs arbitrary: n) auto

lemma atoi_token:
  assumes "token t" and "separator c"
  shows "atoi (t @ c # rest) = atoi (t @ [0x0A])"
proof -
  from assms(1) obtain x xs where t: "t = x # xs" by (cases t) (auto simp: token_def)
  with assms(1) have "0x20 < x" "x < 0x7F" by (auto simp: token_def)
  then have x: "\<not> isspace x" unfolding isspace_def by unat_arith
  have nd: "\<not> isdigit c" "\<not> isdigit 0x0A"
    using assms(2) by (auto simp: separator_not_digit separator_def)
  have a: "atoi_digits 0 (xs @ c # rest) = atoi_digits 0 (xs @ 0x0A # [])"
    by (rule atoi_digits_end [OF nd])
  have b: "atoi_digits 0 ((x # xs) @ c # rest) = atoi_digits 0 ((x # xs) @ 0x0A # [])"
    by (rule atoi_digits_end [OF nd])
  show ?thesis using x a b by (simp add: atoi_def t)
qed

lemma decimal_digits: "list_all isdigit (decimal v)"
  by (induction v rule: decimal.induct) (subst decimal.simps, auto simp: digit_byte)

lemma decimal_value: "foldl (\<lambda>n c. n * 10 + uint (c - 0x30)) 0 (decimal v) = int v"
proof (induction v rule: decimal.induct)
  case (1 n)
  show ?case
  proof (cases "n < 10")
    case True
    then show ?thesis by (subst decimal.simps) (simp add: digit_byte)
  next
    case False
    with 1 have "foldl (\<lambda>n c. n * 10 + uint (c - 0x30)) 0 (decimal (n div 10)) = int (n div 10)"
      by simp
    moreover have "n mod 10 < 10" by simp
    ultimately show ?thesis using False
      by (subst decimal.simps) (simp add: digit_byte zdiv_int zmod_int)
  qed
qed

lemma decimal_not_empty: "decimal v \<noteq> []"
  by (subst decimal.simps) simp

lemma hd_decimal_digit: "\<exists>d<10. hd (decimal v) = 0x30 + of_nat d"
proof (induction v rule: decimal.induct)
  case (1 n)
  show ?case
  proof (cases "n < 10")
    case True
    then show ?thesis by (subst decimal.simps) auto
  next
    case False
    with 1 show ?thesis
      by (subst decimal.simps) (simp add: decimal_not_empty)
  qed
qed

lemma hd_decimal_zero: "hd (decimal v) = 0x30 \<longleftrightarrow> v = 0"
proof (induction v rule: decimal.induct)
  case (1 n)
  show ?case
  proof (cases "n < 10")
    case True
    then show ?thesis by (subst decimal.simps) (simp add: digit_byte)
  next
    case False
    then have "n div 10 \<noteq> 0" by simp
    with False 1 show ?thesis
      by (subst decimal.simps) (simp add: decimal_not_empty)
  qed
qed

lemma token_decimal: "token (decimal v)"
proof -
  have "list_all (\<lambda>c. 0x20 < c \<and> c < 0x7F) (decimal v)"
    by (induction v rule: decimal.induct) (subst decimal.simps, auto simp: digit_byte)
  then show ?thesis by (simp add: token_def decimal_not_empty)
qed

lemma atoi_decimal:
  assumes "\<not> isdigit c" and "int v \<le> INT_MAX"
  shows "atoi (decimal v @ c # rest) = Some (int v)"
proof -
  obtain x xs where d: "decimal v = x # xs"
    using decimal_not_empty by (cases "decimal v") auto
  from hd_decimal_digit [of v] d obtain k where k: "k < 10" "x = 0x30 + of_nat k" by auto
  have "atoi_digits 0 (decimal v @ c # rest) = Some (int v)"
    using assms(1) by (simp add: atoi_digits_append decimal_digits decimal_value)
  then show ?thesis using k assms(2) d
    by (simp add: atoi_def digit_byte INT_MAX_def)
qed

subsection \<open>What a handler reads of a parameter\<close>

lemma parameter_at:
  assumes "token w" and "\<forall>t\<in>set args. token t" and "k \<le> length args" and "length args \<le> 64"
  shows "findPara (cmdline w args) (int (length (cmdline w args))) (1 + int k) a
           = Some (int (length ((w # args) ! k)), Some (offset (w # args) k))"
    and "atoi (drop (offset (w # args) k) (cmdline w args)) = atoi ((w # args) ! k @ [0x0A])"
    and "rd (cmdline w args) (offset (w # args) k) = Some (hd ((w # args) ! k))"
proof -
  let ?cmd = "cmdline w args" and ?p = "offset (w # args) k" and ?t = "(w # args) ! k"
  show "findPara ?cmd (int (length ?cmd)) (1 + int k) a = Some (int (length ?t), Some ?p)"
    using findPara_for_tokens [of w args k 0 "[]" a] assms
    by (simp add: findPara_def cmdline_def INT_MAX_def)
  have tok: "token ?t" using assms(1,2,3) by (cases k) auto
  from drop_offset [OF assms(3), of w] obtain c rest where c: "separator c"
    and dr: "drop ?p ?cmd = ?t @ c # rest"
    by (auto simp: cmdline_def)
  show "atoi (drop ?p ?cmd) = atoi (?t @ [0x0A])"
    unfolding dr by (rule atoi_token [OF tok c])
  have lt: "?p < length ?cmd"
  proof (rule ccontr)
    assume "\<not> ?p < length ?cmd"
    then have "length ?cmd \<le> ?p" by (rule leI)
    then have "drop ?p ?cmd = []" by (rule drop_all)
    with dr have "?t @ c # rest = []" by (simp only:)
    then show False by simp
  qed
  have "?cmd ! ?p = hd (drop ?p ?cmd)"
    by (rule hd_drop_conv_nth [OF lt, symmetric])
  also have "\<dots> = hd ?t" using token_not_empty [OF tok] by (simp only: dr) simp
  finally show "rd ?cmd ?p = Some (hd ?t)"
    using lt by (simp only: rd_def if_True)
qed

subsection \<open>The loop over the record arguments\<close>

lemma records_for_tokens:
  assumes "token w" and "\<forall>t\<in>set (done @ todo). token t"
    and "list_all2 (\<lambda>t v. atoi (t @ [0x0A]) = Some v) todo vs"
    and "length (records s) = 7" and "length (done @ todo) \<le> 7"
  shows "records_for (w @ spaced (done @ todo) @ [0x0A])
           (int (length (w @ spaced (done @ todo) @ [0x0A])))
           (1 + int (length (done @ todo))) (2 + int (length done)) s
         = Some (store (offset (w # done @ todo) (Suc (length done))) (length done) (zip todo vs) s)"
  using assms
proof (induction todo arbitrary: "done" vs s)
  case Nil
  then show ?case
    by (simp add: records_for.simps [of _ _ _ "2 + int (length done)"])
next
  case (Cons t todo)
  from Cons.prems(3) obtain v vs' where vs: "vs = v # vs'" and v: "atoi (t @ [0x0A]) = Some v"
    and vs': "list_all2 (\<lambda>t v. atoi (t @ [0x0A]) = Some v) todo vs'"
    by (cases vs) auto
  let ?args = "done @ t # todo"
  let ?cmd = "w @ spaced ?args @ [0x0A]"
  let ?k = "Suc (length done)"
  let ?p = "offset (w # ?args) ?k"
  have tok: "token t" using Cons.prems(2) by simp
  have k: "?k \<le> length ?args" by simp
  have fp: "findPara ?cmd (int (length ?cmd)) (2 + int (length done)) (paraAddr s)
            = Some (int (length t), Some ?p)"
    using findPara_for_tokens [of w ?args ?k 0 "[]" "paraAddr s"] Cons.prems(1,2,5)
    by (simp add: findPara_def INT_MAX_def nth_append)
  from drop_offset [OF k, of w] obtain c rest where c: "separator c"
    and dr: "drop ?p ?cmd = t @ c # rest"
    by (auto simp: nth_append)
  have at: "atoi (drop ?p ?cmd) = Some v"
    unfolding dr using atoi_token [OF tok c] v by simp
  from tok obtain x xs where t: "t = x # xs" by (cases t) (auto simp: token_def)
  have lt: "?p < length ?cmd"
  proof (rule ccontr)
    assume "\<not> ?p < length ?cmd"
    then have "length ?cmd \<le> ?p" by (rule leI)
    then have "drop ?p ?cmd = []" by (rule drop_all)
    with dr have "t @ c # rest = []" by (simp only:)
    then show False by simp
  qed
  have "?cmd ! ?p = hd (drop ?p ?cmd)"
    by (rule hd_drop_conv_nth [OF lt, symmetric])
  also have "\<dots> = hd t" by (simp only: dr) (simp add: t)
  finally have rdp: "rd ?cmd ?p = Some (hd t)"
    using lt by (simp only: rd_def if_True)
  let ?s1 = "s\<lparr>paraAddr := Some ?p, records := (records s)[length done := word_of_int v]\<rparr>"
  have ih: "records_for ?cmd (int (length ?cmd)) (1 + int (length ?args))
              (2 + int (length (done @ [t]))) ?s1
            = Some (store (offset (w # ?args) (Suc (length (done @ [t])))) (length (done @ [t]))
                      (zip todo vs') ?s1)"
    using Cons.IH [of "done @ [t]" vs' ?s1] Cons.prems(1,2,4,5) vs' by simp
  have os: "offset (w # ?args) (Suc ?k) = ?p + length t + 1"
    using offset_Suc [of ?k "w # ?args"] by (simp add: nth_append)
  show ?case
    apply (subst records_for.simps)
    apply (simp only: fp at rdp option.case prod.case)
    using ih Cons.prems(4,5) os
    apply (simp add: vs Let_def add.commute add.left_commute)
    done
qed

lemma store_refused:
  "\<exists>(t, v)\<in>set tvs. (word_of_int v :: u8) = 0 \<and> hd t \<noteq> 0x30 \<Longrightarrow>
   \<exists>s'. store p j tvs s = Return (- 1) s' \<and> serial s' = serial s \<and> buf s' = buf s"
proof (induction tvs arbitrary: p j s)
  case Nil
  then show ?case by simp
next
  case (Cons tv tvs)
  obtain t v where tv: "tv = (t, v)" by (cases tv)
  show ?case
  proof (cases "(word_of_int v :: u8) = 0 \<and> hd t \<noteq> 0x30")
    case True
    then show ?thesis by (simp add: tv)
  next
    case False
    with Cons.prems tv have "\<exists>(t, v)\<in>set tvs. (word_of_int v :: u8) = 0 \<and> hd t \<noteq> 0x30"
      by auto
    from Cons.IH [OF this, of "p + length t + 1" "Suc j"
                    "s\<lparr>paraAddr := Some p, records := (records s)[j := word_of_int v]\<rparr>"]
    obtain s' where "store (p + length t + 1) (Suc j) tvs
                       (s\<lparr>paraAddr := Some p, records := (records s)[j := word_of_int v]\<rparr>)
                     = Return (- 1) s'" "serial s' = serial s" "buf s' = buf s"
      by auto
    with False show ?thesis
      by (simp add: tv Let_def)
  qed
qed

lemma store_accepted:
  "\<forall>(t, v)\<in>set tvs. \<not> ((word_of_int v :: u8) = 0 \<and> hd t \<noteq> 0x30) \<Longrightarrow>
   j + length tvs \<le> length (records s) \<Longrightarrow>
   \<exists>s'. store p j tvs s = Next s' \<and> serial s' = serial s \<and> buf s' = buf s
        \<and> length (records s') = length (records s)
        \<and> take (j + length tvs) (records s') = take j (records s) @ map (word_of_int \<circ> snd) tvs"
proof (induction tvs arbitrary: p j s)
  case Nil
  then show ?case by simp
next
  case (Cons tv tvs)
  obtain t v where tv: "tv = (t, v)" by (cases tv)
  let ?s1 = "s\<lparr>paraAddr := Some p, records := (records s)[j := word_of_int v]\<rparr>"
  from Cons.prems tv have ok: "\<not> ((word_of_int v :: u8) = 0 \<and> hd t \<noteq> 0x30)"
    and rest: "\<forall>(t, v)\<in>set tvs. \<not> ((word_of_int v :: u8) = 0 \<and> hd t \<noteq> 0x30)"
    and len: "Suc j + length tvs \<le> length (records ?s1)" and j: "j < length (records s)"
    by auto
  from Cons.IH [OF rest len, of "p + length t + 1"] obtain s' where
    s': "store (p + length t + 1) (Suc j) tvs ?s1 = Next s'" "serial s' = serial s" "buf s' = buf s"
      "length (records s') = length (records s)"
      "take (Suc j + length tvs) (records s') = take (Suc j) (records ?s1) @ map (word_of_int \<circ> snd) tvs"
    by auto
  have "take (Suc j) (records ?s1) = take j (records s) @ [word_of_int v]"
    using j by (simp add: take_Suc_conv_app_nth)
  with s' ok show ?case
    by (simp add: tv Let_def)
qed

lemma records_for_refused:
  assumes "token w" and "\<forall>t\<in>set args. token t"
    and "list_all2 (\<lambda>t v. atoi (t @ [0x0A]) = Some v) args vs"
    and "length (records s) = 7" and "length args \<le> 7"
    and "\<exists>(t, v)\<in>set (zip args vs). (word_of_int v :: u8) = 0 \<and> hd t \<noteq> 0x30"
  shows "\<exists>s'. records_for (w @ spaced args @ [0x0A]) (int (length (w @ spaced args @ [0x0A])))
                 (1 + int (length args)) 2 s = Some (Return (- 1) s')
              \<and> serial s' = serial s \<and> buf s' = buf s"
  using records_for_tokens [of w "[]" args vs s] assms(1-5)
        store_refused [OF assms(6), of "offset (w # args) (Suc 0)" 0 s]
  by auto

lemma records_for_accepted:
  assumes "token w" and "\<forall>t\<in>set args. token t"
    and "list_all2 (\<lambda>t v. atoi (t @ [0x0A]) = Some v) args vs"
    and "length (records s) = 7" and "length args \<le> 7"
    and "\<forall>(t, v)\<in>set (zip args vs). \<not> ((word_of_int v :: u8) = 0 \<and> hd t \<noteq> 0x30)"
  shows "\<exists>s'. records_for (w @ spaced args @ [0x0A]) (int (length (w @ spaced args @ [0x0A])))
                 (1 + int (length args)) 2 s = Some (Next s')
              \<and> serial s' = serial s \<and> buf s' = buf s
              \<and> take (length args) (records s') = map word_of_int vs"
proof -
  from assms(3) have len: "length vs = length args" by (simp add: list_all2_lengthD)
  then have "0 + length (zip args vs) \<le> length (records s)" using assms(4,5) by simp
  from store_accepted [OF assms(6) this, of "offset (w # args) (Suc 0)"] obtain s' where
    "store (offset (w # args) (Suc 0)) 0 (zip args vs) s = Next s'" "serial s' = serial s"
    "buf s' = buf s" "take (0 + length (zip args vs)) (records s')
                      = take 0 (records s) @ map (word_of_int \<circ> snd) (zip args vs)"
    by blast
  moreover have "map (word_of_int \<circ> snd) (zip args vs) = (map word_of_int vs :: u8 list)"
    using len by (simp add: map_snd_zip flip: map_map)
  ultimately show ?thesis
    using records_for_tokens [of w "[]" args vs s] assms(1-5) len by auto
qed

subsection \<open>The handlers on a command line\<close>

lemma cmdTrain_tokens:
  assumes "token w" and "\<forall>t\<in>set args. token t"
    and "list_all2 (\<lambda>t v. atoi (t @ [0x0A]) = Some v) args vs"
    and "length (records s) = 7" and "args \<noteq> []" and "length args \<le> 7"
  shows "rejected s (cmdTrain dev (cmdline w args) (int (length (cmdline w args)))
                       (1 + int (length args)) s)
           \<longleftrightarrow> (\<exists>(t, v)\<in>set (zip args vs). (word_of_int v :: u8) = 0 \<and> hd t \<noteq> 0x30)"
    and "\<forall>(t, v)\<in>set (zip args vs). \<not> ((word_of_int v :: u8) = 0 \<and> hd t \<noteq> 0x30) \<Longrightarrow>
         reply_ok dev (ReqTrain (map word_of_int vs)) \<Longrightarrow>
         delegated s (ReqTrain (map word_of_int vs))
           (cmdTrain dev (cmdline w args) (int (length (cmdline w args))) (1 + int (length args)) s)"
proof -
  let ?r = "cmdTrain dev (cmdline w args) (int (length (cmdline w args))) (1 + int (length args)) s"
  let ?bad = "\<exists>(t, v)\<in>set (zip args vs). (word_of_int v :: u8) = 0 \<and> hd t \<noteq> 0x30"
  have ar: "\<not> (1 + int (length args) < 2 \<or> 1 + int (length args) > 8)"
    using assms(5,6) by (cases args) auto
  have bad: "rejected s ?r" if ?bad
  proof -
    from records_for_refused [OF assms(1-4,6) that] obtain s' where
      "records_for (cmdline w args) (int (length (cmdline w args))) (1 + int (length args)) 2 s
         = Some (Return (- 1) s')" "serial s' = serial s"
      by (auto simp: cmdline_def)
    then show ?thesis using ar by (simp add: cmdTrain_def rejected_def)
  qed
  have good: "\<not> rejected s ?r \<and> (reply_ok dev (ReqTrain (map word_of_int vs))
                \<longrightarrow> delegated s (ReqTrain (map word_of_int vs)) ?r)" if "\<not> ?bad"
  proof -
    from that have "\<forall>(t, v)\<in>set (zip args vs). \<not> ((word_of_int v :: u8) = 0 \<and> hd t \<noteq> 0x30)"
      by auto
    from records_for_accepted [OF assms(1-4,6) this] obtain s' where
      "records_for (cmdline w args) (int (length (cmdline w args))) (1 + int (length args)) 2 s
         = Some (Next s')" "serial s' = serial s"
      "take (length args) (records s') = map word_of_int vs"
      by (auto simp: cmdline_def)
    then show ?thesis using ar
      by (auto simp: cmdTrain_def rejected_def delegated_def reply_ok_def call_def emit_def
               split: option.splits)
  qed
  from bad good show "rejected s ?r \<longleftrightarrow> ?bad" by blast
  assume "\<forall>(t, v)\<in>set (zip args vs). \<not> ((word_of_int v :: u8) = 0 \<and> hd t \<noteq> 0x30)"
    and "reply_ok dev (ReqTrain (map word_of_int vs))"
  with good show "delegated s (ReqTrain (map word_of_int vs)) ?r" by auto
qed

lemma cmdLoad_tokens:
  assumes "token w" and "\<forall>t\<in>set args. token t"
    and "list_all2 (\<lambda>t v. atoi (t @ [0x0A]) = Some v) args vs"
    and "length (records s) = 7" and "args \<noteq> []" and "length args \<le> 7"
  shows "rejected s (cmdLoad dev (cmdline w args) (int (length (cmdline w args)))
                       (1 + int (length args)) s)
           \<longleftrightarrow> (\<exists>(t, v)\<in>set (zip args vs). (word_of_int v :: u8) = 0 \<and> hd t \<noteq> 0x30)"
    and "\<forall>(t, v)\<in>set (zip args vs). \<not> ((word_of_int v :: u8) = 0 \<and> hd t \<noteq> 0x30) \<Longrightarrow>
         reply_ok dev (ReqLoad (map word_of_int vs)) \<Longrightarrow>
         delegated s (ReqLoad (map word_of_int vs))
           (cmdLoad dev (cmdline w args) (int (length (cmdline w args))) (1 + int (length args)) s)"
proof -
  let ?r = "cmdLoad dev (cmdline w args) (int (length (cmdline w args))) (1 + int (length args)) s"
  let ?bad = "\<exists>(t, v)\<in>set (zip args vs). (word_of_int v :: u8) = 0 \<and> hd t \<noteq> 0x30"
  have ar: "\<not> (1 + int (length args) < 2 \<or> 1 + int (length args) > 8)"
    using assms(5,6) by (cases args) auto
  have bad: "rejected s ?r" if ?bad
  proof -
    from records_for_refused [OF assms(1-4,6) that] obtain s' where
      "records_for (cmdline w args) (int (length (cmdline w args))) (1 + int (length args)) 2 s
         = Some (Return (- 1) s')" "serial s' = serial s"
      by (auto simp: cmdline_def)
    then show ?thesis using ar by (simp add: cmdLoad_def rejected_def)
  qed
  have good: "\<not> rejected s ?r \<and> (reply_ok dev (ReqLoad (map word_of_int vs))
                \<longrightarrow> delegated s (ReqLoad (map word_of_int vs)) ?r)" if "\<not> ?bad"
  proof -
    from that have "\<forall>(t, v)\<in>set (zip args vs). \<not> ((word_of_int v :: u8) = 0 \<and> hd t \<noteq> 0x30)"
      by auto
    from records_for_accepted [OF assms(1-4,6) this] obtain s' where
      "records_for (cmdline w args) (int (length (cmdline w args))) (1 + int (length args)) 2 s
         = Some (Next s')" "serial s' = serial s"
      "take (length args) (records s') = map word_of_int vs"
      by (auto simp: cmdline_def)
    then show ?thesis using ar
      by (auto simp: cmdLoad_def rejected_def delegated_def reply_ok_def call_def emit_def Let_def
               split: option.splits)
  qed
  from bad good show "rejected s ?r \<longleftrightarrow> ?bad" by blast
  assume "\<forall>(t, v)\<in>set (zip args vs). \<not> ((word_of_int v :: u8) = 0 \<and> hd t \<noteq> 0x30)"
    and "reply_ok dev (ReqLoad (map word_of_int vs))"
  with good show "delegated s (ReqLoad (map word_of_int vs)) ?r" by auto
qed

lemma cmdRecord_tokens:
  assumes "token w" and "\<forall>t\<in>set args. token t"
    and "list_all2 (\<lambda>t v. atoi (t @ [0x0A]) = Some v) args vs"
    and "length (records s) = 7" and "args \<noteq> []" and "length args \<le> 7"
  shows "rejected s (cmdRecord dev (cmdline w args) (int (length (cmdline w args)))
                       (1 + int (length args)) s)
           \<longleftrightarrow> (\<exists>(t, v)\<in>set (zip args vs). (word_of_int v :: u8) = 0 \<and> hd t \<noteq> 0x30)"
    and "\<forall>(t, v)\<in>set (zip args vs). \<not> ((word_of_int v :: u8) = 0 \<and> hd t \<noteq> 0x30) \<Longrightarrow>
         reply_ok dev (ReqCheckRecord (map word_of_int vs)) \<Longrightarrow>
         delegated s (ReqCheckRecord (map word_of_int vs))
           (cmdRecord dev (cmdline w args) (int (length (cmdline w args))) (1 + int (length args)) s)"
proof -
  let ?r = "cmdRecord dev (cmdline w args) (int (length (cmdline w args))) (1 + int (length args)) s"
  let ?bad = "\<exists>(t, v)\<in>set (zip args vs). (word_of_int v :: u8) = 0 \<and> hd t \<noteq> 0x30"
  have ar: "1 + int (length args) \<noteq> 1" "1 + int (length args) < 9"
    using assms(5,6) by (cases args; auto)+
  have bad: "rejected s ?r" if ?bad
  proof -
    from records_for_refused [OF assms(1-4,6) that] obtain s' where
      "records_for (cmdline w args) (int (length (cmdline w args))) (1 + int (length args)) 2 s
         = Some (Return (- 1) s')" "serial s' = serial s"
      by (auto simp: cmdline_def)
    then show ?thesis using ar by (simp add: cmdRecord_def rejected_def)
  qed
  have good: "\<not> rejected s ?r \<and> (reply_ok dev (ReqCheckRecord (map word_of_int vs))
                \<longrightarrow> delegated s (ReqCheckRecord (map word_of_int vs)) ?r)" if "\<not> ?bad"
  proof -
    from that have "\<forall>(t, v)\<in>set (zip args vs). \<not> ((word_of_int v :: u8) = 0 \<and> hd t \<noteq> 0x30)"
      by auto
    from records_for_accepted [OF assms(1-4,6) this] obtain s' where
      "records_for (cmdline w args) (int (length (cmdline w args))) (1 + int (length args)) 2 s
         = Some (Next s')" "serial s' = serial s"
      "take (length args) (records s') = map word_of_int vs"
      by (auto simp: cmdline_def)
    then show ?thesis using ar
      by (auto simp: cmdRecord_def rejected_def delegated_def reply_ok_def call_def emit_def
               split: option.splits)
  qed
  from bad good show "rejected s ?r \<longleftrightarrow> ?bad" by blast
  assume "\<forall>(t, v)\<in>set (zip args vs). \<not> ((word_of_int v :: u8) = 0 \<and> hd t \<noteq> 0x30)"
    and "reply_ok dev (ReqCheckRecord (map word_of_int vs))"
  with good show "delegated s (ReqCheckRecord (map word_of_int vs)) ?r" by auto
qed

lemma cmdGetSig_token:
  assumes "token w" and "token t" and "atoi (t @ [0x0A]) = Some v" and "length (records s) = 7"
  shows "rejected s (cmdGetSig dev (cmdline w [t]) (int (length (cmdline w [t]))) 2 s)
           \<longleftrightarrow> (word_of_int v :: u8) = 0 \<and> hd t \<noteq> 0x30"
    and "\<not> ((word_of_int v :: u8) = 0 \<and> hd t \<noteq> 0x30) \<Longrightarrow>
         reply_ok dev (ReqCheckSignature (word_of_int v)) \<Longrightarrow>
         delegated s (ReqCheckSignature (word_of_int v))
           (cmdGetSig dev (cmdline w [t]) (int (length (cmdline w [t]))) 2 s)"
proof -
  let ?cmd = "cmdline w [t]"
  have a: "findPara ?cmd (int (length ?cmd)) 2 (paraAddr s) = Some (int (length t), Some (length w + 1))"
    "atoi (drop (length w + 1) ?cmd) = Some v" "rd ?cmd (length w + 1) = Some (hd t)"
    using parameter_at(1) [of w "[t]" 1 "paraAddr s"] parameter_at(2,3) [of w "[t]" 1] assms(1,2,3)
    by simp_all
  show "rejected s (cmdGetSig dev ?cmd (int (length ?cmd)) 2 s)
           \<longleftrightarrow> (word_of_int v :: u8) = 0 \<and> hd t \<noteq> 0x30"
    unfolding cmdGetSig_def using a assms(4)
    by (auto simp: rejected_def Let_def call_def emit_def split: option.splits prod.splits)
  assume ok: "\<not> ((word_of_int v :: u8) = 0 \<and> hd t \<noteq> 0x30)"
    and r: "reply_ok dev (ReqCheckSignature (word_of_int v))"
  show "delegated s (ReqCheckSignature (word_of_int v)) (cmdGetSig dev ?cmd (int (length ?cmd)) 2 s)"
    unfolding cmdGetSig_def using a assms(4) ok r
    by (auto simp: delegated_def reply_ok_def Let_def call_def emit_def split: option.splits prod.splits)
qed

lemma sig_len_add_small:
  assumes "0 \<le> n" and "n \<le> 65" and "l \<le> 65" and "p \<le> 65"
  shows "sig_len_add n l p = n + int l - int p"
proof -
  have "(word_of_int n :: 16 word) + (word_of_nat l - word_of_nat p) = word_of_int (n + int l - int p)"
    by simp
  moreover have "sint (word_of_int (n + int l - int p) :: 16 word) = n + int l - int p"
  proof -
    from assms have "0 \<le> n + int l - int p + 32768" and "n + int l - int p + 32768 < 65536"
      by simp_all
    then have "(n + int l - int p + 32768) mod 65536 = n + int l - int p + 32768"
      by (rule mod_pos_pos_trivial)
    with int_word_sint [where 'a = 16, of "n + int l - int p"] show ?thesis by simp
  qed
  ultimately show ?thesis by (simp only: sig_len_add_def)
qed

lemma cmdSigTrain_tokens:
  assumes "token w" and "token t" and "\<forall>u\<in>set sig. token u"
    and "atoi (t @ [0x0A]) = Some v" and "length (records s) = 7"
    and "length (cmdline w (t # sig)) \<le> 65"
  shows "rejected s (cmdSigTrain dev (cmdline w (t # sig)) (int (length (cmdline w (t # sig))))
                       (2 + int (length sig)) s)
           \<longleftrightarrow> (word_of_int v :: u8) = 0 \<and> hd t \<noteq> 0x30"
    and "\<not> ((word_of_int v :: u8) = 0 \<and> hd t \<noteq> 0x30) \<Longrightarrow>
         reply_ok dev (ReqTrainWithSignature (word_of_int v)
                         (if sig = [] then length w + length t + 1 else length w + length t + 2)
                         (if sig = [] then 0 else int (length (spaced sig)) - 1)) \<Longrightarrow>
         delegated s (ReqTrainWithSignature (word_of_int v)
                         (if sig = [] then length w + length t + 1 else length w + length t + 2)
                         (if sig = [] then 0 else int (length (spaced sig)) - 1))
           (cmdSigTrain dev (cmdline w (t # sig)) (int (length (cmdline w (t # sig))))
                       (2 + int (length sig)) s)"
proof -
  let ?args = "t # sig"
  let ?cmd = "cmdline w ?args"
  let ?len = "int (length ?cmd)"
  let ?p3 = "if sig = [] then length w + length t + 1 else length w + length t + 2"
  let ?L = "if sig = [] then 0 else int (length (spaced sig)) - 1"
  have toks: "\<forall>u\<in>set ?args. token u" using assms(2,3) by simp
  have "length args' \<le> length (spaced args')" for args'
    by (induction args') auto
  from this [of ?args] have n64: "length ?args \<le> 64"
    using assms(6) by (simp add: cmdline_def)
  have a: "findPara ?cmd ?len 2 (paraAddr s) = Some (int (length t), Some (length w + 1))"
    "atoi (drop (length w + 1) ?cmd) = Some v" "rd ?cmd (length w + 1) = Some (hd t)"
    using parameter_at(1) [OF assms(1) toks _ n64, of 1 "paraAddr s"]
          parameter_at(2,3) [OF assms(1) toks _ n64, of 1] assms(4)
    by simp_all
  have b: "findPara ?cmd ?len 3 a' = Some (if sig = [] then 0 else int (length (hd sig)), Some ?p3)" for a'
  proof (cases sig)
    case Nil
    then show ?thesis
      using findPara_for_tokens_beyond [of w "[t]" 2 0 "[]" a'] assms(1,2)
      by (simp add: findPara_def cmdline_def INT_MAX_def)
  next
    case (Cons u us)
    then show ?thesis
      using parameter_at(1) [OF assms(1) toks _ n64, of 2 a'] by (simp add: numeral_2_eq_2)
  qed
  have c: "findPara ?cmd ?len (2 + int (length sig)) None
           = Some (int (length (?args ! length sig)), Some (offset (w # ?args) (length ?args)))"
    using parameter_at(1) [OF assms(1) toks _ n64, of "length ?args" None]
    by (simp add: add.commute)
  have ol: "offset (w # ?args) (length ?args) + length (?args ! length sig)
            = length w + length (spaced ?args)"
    using offset_last [of w ?args] by simp
  have lens: "length w + length (spaced ?args) \<le> 64"
    using assms(6) by (simp add: cmdline_def)
  have d: "sig_len_add (int (length (?args ! length sig))) (offset (w # ?args) (length ?args)) ?p3 = ?L"
  proof -
    have "sig_len_add (int (length (?args ! length sig))) (offset (w # ?args) (length ?args)) ?p3
          = int (length (?args ! length sig)) + int (offset (w # ?args) (length ?args)) - int ?p3"
      using ol lens by (intro sig_len_add_small) (auto split: if_splits)
    also have "\<dots> = int (length w + length (spaced ?args)) - int ?p3"
      using ol by simp
    also have "\<dots> = ?L" by (cases sig) auto
    finally show ?thesis .
  qed
  show "rejected s (cmdSigTrain dev ?cmd ?len (2 + int (length sig)) s)
           \<longleftrightarrow> (word_of_int v :: u8) = 0 \<and> hd t \<noteq> 0x30"
    unfolding cmdSigTrain_def using a b c assms(5)
    by (auto simp: rejected_def Let_def call_def emit_def split: option.splits prod.splits)
  assume ok: "\<not> ((word_of_int v :: u8) = 0 \<and> hd t \<noteq> 0x30)"
    and r: "reply_ok dev (ReqTrainWithSignature (word_of_int v) ?p3 ?L)"
  show "delegated s (ReqTrainWithSignature (word_of_int v) ?p3 ?L)
          (cmdSigTrain dev ?cmd ?len (2 + int (length sig)) s)"
    unfolding cmdSigTrain_def using a b c d assms(5) ok r
    by (auto simp: delegated_def reply_ok_def Let_def call_def emit_def
             split: option.splits prod.splits)
qed


subsection \<open>The dispatch in loop\<close>

lemma byte_pair_equal:
  fixes a b :: u8
  assumes "b - a = 0 \<or> b - a = 0x20" and "a - b = 0 \<or> a - b = 0x20"
  shows "a = b"
proof (rule ccontr)
  assume "a \<noteq> b"
  with assms have "b - a = 0x20" and "a - b = 0x20" by auto
  then have "(b - a) + (a - b) = 0x40" by simp
  then show False by simp
qed

lemma compareCMD_for_equal:
  "compareCMD_for para1 para2 len i = Some 0 \<Longrightarrow> i \<le> k \<Longrightarrow> int k < len \<Longrightarrow>
   k < length para1 \<and> k < length para2 \<and> para1 ! k = para2 ! k"
proof (induction para1 para2 len i rule: compareCMD_for.induct)
  case (1 para1 para2 len i)
  from "1.prems" have lt: "int i < len" by simp
  from "1.prems"(1) lt have rng: "i < length para1" "i < length para2"
    by (auto simp: compareCMD_for.simps [of para1 para2 len i] split: if_splits)
  from "1.prems"(1) lt rng have d: "para2 ! i - para1 ! i = 0 \<or> para2 ! i - para1 ! i = 0x20"
      "para1 ! i - para2 ! i = 0 \<or> para1 ! i - para2 ! i = 0x20"
    by (auto simp: compareCMD_for.simps [of para1 para2 len i] Let_def split: if_splits)
  have eq: "para1 ! i = para2 ! i" by (rule byte_pair_equal [OF d])
  from "1.prems"(1) lt rng d have rest: "compareCMD_for para1 para2 len (i + 1) = Some 0"
    by (auto simp: compareCMD_for.simps [of para1 para2 len i] Let_def split: if_splits)
  show ?case
  proof (cases "k = i")
    case True
    with rng eq show ?thesis by simp
  next
    case False
    with "1.prems"(2) have "i + 1 \<le> k" by simp
    with "1.IH" lt rng d rest "1.prems"(3) show ?thesis
      by (auto simp: Let_def)
  qed
qed

lemma compareCMD_identical:
  "compareCMD para1 para2 len = Some 0 \<Longrightarrow>
   take (nat len) para1 = take (nat len) para2"
proof -
  assume a: "compareCMD para1 para2 len = Some 0"
  have *: "k < length para1 \<and> k < length para2 \<and> para1 ! k = para2 ! k" if "int k < len" for k
    using compareCMD_for_equal [of para1 para2 len 0 k] a that by (simp add: compareCMD_def)
  show ?thesis
  proof (rule nth_equalityI)
    show "length (take (nat len) para1) = length (take (nat len) para2)"
    proof (cases "0 < len")
      case True
      then have "int (nat len - 1) < len" by simp
      from *[OF this] True have "nat len \<le> length para1" "nat len \<le> length para2" by auto
      then show ?thesis by simp
    next
      case False
      then show ?thesis by simp
    qed
  next
    fix k assume "k < length (take (nat len) para1)"
    then have "int k < len" by auto
    from *[OF this] \<open>k < length (take (nat len) para1)\<close>
    show "take (nat len) para1 ! k = take (nat len) para2 ! k" by simp
  qed
qed

lemma compareCMD_for_total:
  assumes "nat len \<le> length para1" and "nat len \<le> length para2"
  shows "compareCMD_for para1 para2 len i = Some 0 \<or> compareCMD_for para1 para2 len i = Some (- 1)"
  using assms
proof (induction para1 para2 len i rule: compareCMD_for.induct)
  case (1 para1 para2 len i)
  show ?case
  proof (cases "int i < len")
    case True
    with "1.prems" have rng: "i < length para1 \<and> i < length para2" by linarith
    show ?thesis
    proof (cases "(para2 ! i - para1 ! i = 0 \<or> para2 ! i - para1 ! i = 0x20)
                   \<and> (para1 ! i - para2 ! i = 0 \<or> para1 ! i - para2 ! i = 0x20)")
      case False
      with True rng show ?thesis
        by (subst (1 2) compareCMD_for.simps) (auto simp: Let_def)
    next
      case ok: True
      with "1.IH" True rng "1.prems"
      have "compareCMD_for para1 para2 len (i + 1) = Some 0
            \<or> compareCMD_for para1 para2 len (i + 1) = Some (- 1)"
        by (auto simp: Let_def)
      with True rng ok show ?thesis
        by (subst (1 2) compareCMD_for.simps) (auto simp: Let_def)
    qed
  next
    case False
    then show ?thesis by (subst compareCMD_for.simps) simp
  qed
qed

lemma checkCMD_for_valid:
  assumes "nat len \<le> length cmd"
    and "\<forall>c\<in>set cmd. (0x1F < c \<and> c < 0x7F) \<or> c = 0x09 \<or> c = 0x20 \<or> c = 0x0D \<or> c = 0x0A"
  shows "checkCMD_for cmd len i = Some 0"
  using assms
proof (induction cmd len i rule: checkCMD_for.induct)
  case (1 cmd len i)
  show ?case
  proof (cases "int i < len")
    case True
    with "1.prems"(1) have i: "i < length cmd" by simp
    with "1.prems"(2) have v: "(0x1F < cmd ! i \<and> cmd ! i < 0x7F) \<or> cmd ! i = 0x09 \<or> cmd ! i = 0x20
        \<or> cmd ! i = 0x0D \<or> cmd ! i = 0x0A"
      by simp
    with "1.IH" True i "1.prems" have "checkCMD_for cmd len (i + 1) = Some 0"
      by blast
    with True i v show ?thesis
      by (subst checkCMD_for.simps) auto
  next
    case False
    then show ?thesis by (subst checkCMD_for.simps) simp
  qed
qed

lemma token_bytes_valid:
  "token t \<Longrightarrow> c \<in> set t \<Longrightarrow> 0x1F < c \<and> c < 0x7F"
proof -
  assume "token t" and "c \<in> set t"
  then have "0x20 < c" and "c < 0x7F" by (auto simp: token_def list_all_iff)
  then show ?thesis by unat_arith
qed

lemma spaced_valid:
  "\<forall>t\<in>set args. token t \<Longrightarrow> c \<in> set (spaced args) \<Longrightarrow> (0x1F < c \<and> c < 0x7F) \<or> c = 0x20"
  by (induction args) (auto dest: token_bytes_valid)

lemma checkCMD_cmdline:
  assumes "token w" and "\<forall>t\<in>set args. token t"
  shows "checkCMD (cmdline w args) (int (length (cmdline w args))) = Some 0"
  unfolding checkCMD_def
proof (rule checkCMD_for_valid)
  show "nat (int (length (cmdline w args))) \<le> length (cmdline w args)" by simp
  show "\<forall>c\<in>set (cmdline w args). (0x1F < c \<and> c < 0x7F) \<or> c = 0x09 \<or> c = 0x20 \<or> c = 0x0D \<or> c = 0x0A"
    using assms by (auto simp: cmdline_def dest: token_bytes_valid spaced_valid)
qed

lemma checkParaNum_cmdline:
  assumes "token w" and "\<forall>t\<in>set args. token t"
  shows "checkParaNum (cmdline w args) (int (length (cmdline w args))) = Some (1 + int (length args))"
  using checkParaNum_for_tokens [OF assms, of "[]" 0]
  by (simp add: checkParaNum_def cmdline_def)

lemma findPara_first:
  assumes "token w" and "\<forall>t\<in>set args. token t"
  shows "findPara (cmdline w args) (int (length (cmdline w args))) 1 a = Some (int (length w), Some 0)"
  using findPara_for_tokens [OF assms, of 0 0 "[]" a]
  by (simp add: findPara_def cmdline_def INT_MAX_def)

lemma compareCMD_clear:
  "compareCMD (drop 0 (cmdline (bytes ''clear'') args)) (cmdList ! 0) 5 = Some (- 1)"
  "compareCMD (drop 0 (cmdline (bytes ''clear'') args)) (cmdList ! 2) 5 = Some 0"
  by (simp_all add: compareCMD_def compareCMD_for.simps cmdline_def bytes_def cmdList_def)

lemma loop_for_clear:
  assumes "paraNum \<noteq> 1" and "paraAddr s = Some 0"
  shows "loop_for dev (cmdline (bytes ''clear'') args) len paraNum 5 0 s
         = Some (2, emit [Println ''Command Format Error!''] s)"
proof -
  have "loop_for dev (cmdline (bytes ''clear'') args) len paraNum 5 2 s
         = Some (2, emit [Println ''Command Format Error!''] s)"
    using assms compareCMD_clear(2) [of args]
    by (subst loop_for.simps) (simp add: CMD_NUM_def cmdLen_def cmdFunction_def cmdClear_def)
  moreover have "loop_for dev (cmdline (bytes ''clear'') args) len paraNum 5 1 s
         = loop_for dev (cmdline (bytes ''clear'') args) len paraNum 5 2 s"
    by (subst loop_for.simps) (simp add: CMD_NUM_def cmdLen_def numeral_2_eq_2)
  moreover have "loop_for dev (cmdline (bytes ''clear'') args) len paraNum 5 0 s
         = loop_for dev (cmdline (bytes ''clear'') args) len paraNum 5 1 s"
    using assms(2) compareCMD_clear(1) [of args]
    by (subst loop_for.simps) (simp add: CMD_NUM_def cmdLen_def)
  ultimately show ?thesis by simp
qed

lemma loop_clear_extra:
  assumes "\<forall>t\<in>set args. token t" and "args \<noteq> []" and "fst (dev (ReqRecognize 50)) \<le> 0"
  shows "map_option serial
           (loop dev (cmdline (bytes ''clear'') args) (int (length (cmdline (bytes ''clear'') args))) s)
         = Some (serial s @ [Write (cmdline (bytes ''clear'') args),
                             Println ''Command Format Error!'', Call (ReqRecognize 50)])"
proof -
  let ?cmd = "cmdline (bytes ''clear'') args"
  have w: "token (bytes ''clear'')" by (simp add: token_def bytes_def)
  have n: "1 + int (length args) \<noteq> 1" using assms(2) by simp
  have len: "0 < int (length ?cmd)" by (simp add: cmdline_def)
  have fp: "findPara ?cmd (int (length ?cmd)) 1 a = Some (5, Some 0)" for a
    using findPara_first [OF w assms(1), of a] by (simp add: bytes_def)
  have lf: "loop_for dev ?cmd (int (length ?cmd)) (1 + int (length args)) 5 0
              (emit [Write ?cmd] s\<lparr>paraAddr := Some 0\<rparr>)
            = Some (2, emit [Println ''Command Format Error!'']
                            (emit [Write ?cmd] s\<lparr>paraAddr := Some 0\<rparr>))"
    by (rule loop_for_clear [OF n]) simp
  show ?thesis
    unfolding loop_def
    using len checkCMD_cmdline [OF w assms(1)] checkParaNum_cmdline [OF w assms(1)] fp lf assms(3)
    by (simp add: Let_def CMD_NUM_def call_def emit_def)
qed

lemma CMD_NUM_cases: "i < CMD_NUM \<Longrightarrow> i \<in> {0, 1, 2, 3, 4, 5, 6, 7}"
  by (auto simp: CMD_NUM_def)

lemma loop_for_unknown:
  assumes "\<forall>i<CMD_NUM. int (length w) = cmdLen ! i \<longrightarrow> w \<noteq> take (length w) (cmdList ! i)"
    and "paraAddr s = Some 0" and "i \<le> CMD_NUM"
  shows "loop_for dev (w @ rest) len paraNum (int (length w)) i s = Some (CMD_NUM, s)"
  using assms(3)
proof (induction "CMD_NUM - i" arbitrary: i)
  case 0
  then have "i = CMD_NUM" by simp
  then show ?case by (subst loop_for.simps) simp
next
  case (Suc n)
  then have i: "i < CMD_NUM" by simp
  from Suc have next_: "loop_for dev (w @ rest) len paraNum (int (length w)) (i + 1) s
                        = Some (CMD_NUM, s)"
    by (intro Suc.hyps(1)) simp_all
  show ?case
  proof (cases "int (length w) = cmdLen ! i")
    case False
    with i next_ show ?thesis by (subst loop_for.simps) simp
  next
    case True
    with CMD_NUM_cases [OF i] have le: "length w \<le> length (cmdList ! i)"
      by (auto simp: cmdLen_def cmdList_def bytes_def)
    have "compareCMD (w @ rest) (cmdList ! i) (int (length w)) \<noteq> Some 0"
    proof
      assume "compareCMD (w @ rest) (cmdList ! i) (int (length w)) = Some 0"
      from compareCMD_identical [OF this] have "w = take (length w) (cmdList ! i)" by simp
      with assms(1) i True show False by blast
    qed
    moreover have "compareCMD (w @ rest) (cmdList ! i) (int (length w)) = Some 0
                   \<or> compareCMD (w @ rest) (cmdList ! i) (int (length w)) = Some (- 1)"
      unfolding compareCMD_def using le by (intro compareCMD_for_total) simp_all
    ultimately have "compareCMD (w @ rest) (cmdList ! i) (int (length w)) = Some (- 1)"
      by blast
    with i True next_ assms(2) show ?thesis by (subst loop_for.simps) simp
  qed
qed

lemma loop_unknown:
  assumes "token w" and "\<forall>t\<in>set args. token t"
    and "\<forall>i<CMD_NUM. int (length w) = cmdLen ! i \<longrightarrow> w \<noteq> take (length w) (cmdList ! i)"
    and "fst (dev (ReqRecognize 50)) \<le> 0"
  shows "map_option serial (loop dev (cmdline w args) (int (length (cmdline w args))) s)
         = Some (serial s @ [Write (cmdline w args), Println ''Unkonwn command'',
                             Call (ReqRecognize 50)])"
proof -
  let ?cmd = "cmdline w args"
  have len: "0 < int (length ?cmd)" by (simp add: cmdline_def)
  have lf: "loop_for dev ?cmd (int (length ?cmd)) (1 + int (length args)) (int (length w)) 0
              (emit [Write ?cmd] s\<lparr>paraAddr := Some 0\<rparr>)
            = Some (CMD_NUM, emit [Write ?cmd] s\<lparr>paraAddr := Some 0\<rparr>)"
    unfolding cmdline_def by (rule loop_for_unknown [OF assms(3)]) simp_all
  show ?thesis
    unfolding loop_def
    using len checkCMD_cmdline [OF assms(1,2)] checkParaNum_cmdline [OF assms(1,2)]
      findPara_first [OF assms(1,2)] lf assms(4)
    by (simp add: Let_def call_def emit_def)
qed

lemma loop_unknown_upper_case:
  assumes "\<forall>t\<in>set args. token t" and "fst (dev (ReqRecognize 50)) \<le> 0"
  shows "map_option serial
           (loop dev (cmdline (bytes ''TRAIN'') args) (int (length (cmdline (bytes ''TRAIN'') args))) s)
         = Some (serial s @ [Write (cmdline (bytes ''TRAIN'') args), Println ''Unkonwn command'',
                             Call (ReqRecognize 50)])"
proof -
  have w: "token (bytes ''TRAIN'')" by (simp add: token_def bytes_def)
  have u: "\<forall>i<CMD_NUM. int (length (bytes ''TRAIN'')) = cmdLen ! i \<longrightarrow>
          bytes ''TRAIN'' \<noteq> take (length (bytes ''TRAIN'')) (cmdList ! i)"
    by (auto dest!: CMD_NUM_cases simp: cmdLen_def cmdList_def bytes_def)
  show ?thesis
    by (rule loop_unknown [where w = "bytes ''TRAIN''" and args = args and dev = dev,
                           OF w assms(1) u assms(2)])
qed

lemma cmdVR_module_failure:
  "fst (dev ReqCheckRecognizer) \<le> 0 \<Longrightarrow>
   cmdVR dev cmd len 1 s = Some (- 1, snd (call dev ReqCheckRecognizer s))"
  by (simp add: cmdVR_def call_def)

subsection \<open>Decimal arguments and the scenarios\<close>

lemma decimal_values:
  assumes "\<forall>n\<in>set ns. n \<le> 32767"
  shows "list_all2 (\<lambda>t v. atoi (t @ [0x0A]) = Some v) (map decimal ns) (map int ns)"
proof -
  have "atoi (decimal n @ [0x0A]) = Some (int n)" if "n \<in> set ns" for n
    using that assms by (intro atoi_decimal) (auto simp: isdigit_def INT_MAX_def)
  then show ?thesis by (simp add: list_all2_map1 list_all2_map2 list_all2_same)
qed

lemma byte_of_nat_zero: "(word_of_nat n :: u8) = 0 \<longleftrightarrow> 256 dvd n"
  by (simp add: word_of_nat_eq_0_iff)

lemma decimal_refused:
  "(\<exists>(t, v)\<in>set (zip (map decimal ns) (map int ns)). (word_of_int v :: u8) = 0 \<and> hd t \<noteq> 0x30)
   \<longleftrightarrow> (\<exists>n\<in>set ns. n \<noteq> 0 \<and> n mod 256 = 0)"
proof -
  have "set (zip (map decimal ns) (map int ns)) = (\<lambda>n. (decimal n, int n)) ` set ns"
    by (induction ns) auto
  then show ?thesis by (auto simp: byte_of_nat_zero hd_decimal_zero)
qed

lemma token_words:
  "token (bytes ''train'')" "token (bytes ''load'')" "token (bytes ''record'')"
  "token (bytes ''sigtrain'')" "token (bytes ''getsig'')" "token (bytes ''ZERO'')"
  by (simp_all add: token_def bytes_def)

lemma initial_records: "length (records initial) = 7"
  by (simp add: initial_def)

lemma module_failing_reply_ok: "reply_ok module_failing req"
  by (simp add: reply_ok_def module_failing_def)

lemma token_00: "token (bytes ''00'')" "atoi (bytes ''00'' @ [0x0A]) = Some 0"
  by (simp add: token_def bytes_def, code_simp)

section \<open>Properties\<close>

text \<open>
  C1. The header of the sketch and the comment of \<open>compareCMD\<close> promise a comparison
  that ignores case. \<open>compareCMD\<close> tests the difference of a byte pair in both
  directions, and a pair that differs by \<open>0x20\<close> one way differs by \<open>0xE0\<close> the other
  way: the upper-case word \<open>TRAIN\<close> is unequal to the table entry \<open>train\<close>, and the line
  \<open>TRAIN 0 2 14\<close> ends as an unknown command, while \<open>train 0 2 14\<close> reaches the train
  operation with the records 0, 2 and 14. In general \<open>compareCMD\<close> returns 0 for
  identical bytes only (\<open>compareCMD_identical\<close>), and every line whose first word is not
  an entry of the table byte for byte is an unknown command (\<open>loop_unknown\<close>), the
  word \<open>TRAIN\<close> with any arguments among them (\<open>loop_unknown_upper_case\<close>).
\<close>

theorem compareCMD_upper_case_unequal:
  "compareCMD (bytes ''TRAIN'') (cmdList ! 0) 5 = Some (- 1)
   \<and> map_option serial (loop module_ok (bytes ''TRAIN 0 2 14\<newline>'') 13 initial)
       = Some (serial initial @ [Write (bytes ''TRAIN 0 2 14\<newline>''),
                                 Println ''Unkonwn command'', Call (ReqRecognize 50)])
   \<and> map_option serial (loop module_ok (bytes ''train 0 2 14\<newline>'') 13 initial)
       = Some (serial initial @ [Write (bytes ''train 0 2 14\<newline>''),
                                 Call (ReqTrain [0, 2, 14]), Println ''Train Finish.'',
                                 Call (ReqRecognize 50)])"
  by code_simp

text \<open>
  C2. On the line \<open>a\<close> with its newline, \<open>checkParaNum\<close> counts one parameter, but
  \<open>findPara\<close> asked for the second one does not return -1: it stops at the newline,
  stores its address and returns the length 0. It is so on every command line and for
  every index above the count (\<open>findPara_for_tokens_beyond\<close>), while up to the count
  \<open>findPara\<close> finds the parameters that \<open>checkParaNum\<close> counts
  (\<open>findPara_for_tokens\<close>, \<open>checkParaNum_for_tokens\<close>).
\<close>

theorem findPara_beyond_count:
  "checkParaNum (bytes ''a\<newline>'') 2 = Some 1
   \<and> findPara (bytes ''a\<newline>'') 2 1 None = Some (1, Some 0)
   \<and> findPara (bytes ''a\<newline>'') 2 2 None = Some (0, Some 1)"
  by code_simp

text \<open>
  C3. On the line \<open>a\<close>, carriage return, \<open>b\<close>, newline, \<open>checkParaNum\<close> counts two
  parameters and \<open>findPara\<close> returns the length 0 for the second: it is the empty
  parameter at the carriage return, not \<open>b\<close>. At a carriage return or newline
  \<open>findPara\<close> never moves on (\<open>findPara_for_stuck\<close>).
\<close>

theorem findPara_zero_length:
  "checkParaNum [0x61, 0x0D, 0x62, 0x0A] 4 = Some 2
   \<and> findPara [0x61, 0x0D, 0x62, 0x0A] 4 2 None = Some (0, Some 1)"
  by code_simp

text \<open>
  C4, as the claim states it, fails on the parameter \<open>00\<close>: \<open>atoi\<close> returns 0 for it,
  its first byte is the character 0, and \<open>cmdTrain\<close> accepts it. The train operation is
  called with record 0 and the handler returns 0.
\<close>

theorem train_accepts_00:
  "atoi (bytes ''00\<newline>'') = Some 0
   \<and> cmdTrain module_ok (bytes ''train 00\<newline>'') 9 2 initial
       = Some (0, initial\<lparr>paraAddr := Some 6, buf := [],
                 serial := serial initial @ [Call (ReqTrain [0]), Println ''Train Finish.'']\<rparr>)"
  by code_simp

text \<open>
  C4, amended. A handler returns the format error for an argument exactly when the byte
  that \<open>atoi\<close> leaves in \<open>records\<close> is 0 and the first byte of the argument is not the
  character 0: so for \<open>cmdTrain\<close>, \<open>cmdLoad\<close> and \<open>cmdRecord\<close> with any of their
  arguments, and for \<open>cmdSigTrain\<close> and \<open>cmdGetSig\<close> with their record argument. When
  no argument is refused, the operation is called with the bytes of the arguments, 0
  for an argument such as \<open>00\<close>.
\<close>

theorem zero_record_first_byte:
  assumes "token w" and "\<forall>t\<in>set args. token t"
    and "list_all2 (\<lambda>t v. atoi (t @ [0x0A]) = Some v) args vs"
    and "length (records s) = 7" and "args \<noteq> []" and "length args \<le> 7"
    and "length (cmdline w args) \<le> 65"
  shows "(rejected s (cmdTrain dev (cmdline w args) (int (length (cmdline w args)))
                       (1 + int (length args)) s)
          \<longleftrightarrow> (\<exists>(t, v)\<in>set (zip args vs). (word_of_int v :: u8) = 0 \<and> hd t \<noteq> 0x30))
   \<and> (rejected s (cmdLoad dev (cmdline w args) (int (length (cmdline w args)))
                       (1 + int (length args)) s)
          \<longleftrightarrow> (\<exists>(t, v)\<in>set (zip args vs). (word_of_int v :: u8) = 0 \<and> hd t \<noteq> 0x30))
   \<and> (rejected s (cmdRecord dev (cmdline w args) (int (length (cmdline w args)))
                       (1 + int (length args)) s)
          \<longleftrightarrow> (\<exists>(t, v)\<in>set (zip args vs). (word_of_int v :: u8) = 0 \<and> hd t \<noteq> 0x30))
   \<and> (rejected s (cmdSigTrain dev (cmdline w args) (int (length (cmdline w args)))
                       (1 + int (length args)) s)
          \<longleftrightarrow> (word_of_int (hd vs) :: u8) = 0 \<and> hd (hd args) \<noteq> 0x30)
   \<and> (rejected s (cmdGetSig dev (cmdline w [hd args]) (int (length (cmdline w [hd args]))) 2 s)
          \<longleftrightarrow> (word_of_int (hd vs) :: u8) = 0 \<and> hd (hd args) \<noteq> 0x30)
   \<and> ((\<forall>(t, v)\<in>set (zip args vs). \<not> ((word_of_int v :: u8) = 0 \<and> hd t \<noteq> 0x30))
        \<and> reply_ok dev (ReqTrain (map word_of_int vs)) \<longrightarrow>
        delegated s (ReqTrain (map word_of_int vs))
          (cmdTrain dev (cmdline w args) (int (length (cmdline w args))) (1 + int (length args)) s))
   \<and> ((\<forall>(t, v)\<in>set (zip args vs). \<not> ((word_of_int v :: u8) = 0 \<and> hd t \<noteq> 0x30))
        \<and> reply_ok dev (ReqLoad (map word_of_int vs)) \<longrightarrow>
        delegated s (ReqLoad (map word_of_int vs))
          (cmdLoad dev (cmdline w args) (int (length (cmdline w args))) (1 + int (length args)) s))
   \<and> ((\<forall>(t, v)\<in>set (zip args vs). \<not> ((word_of_int v :: u8) = 0 \<and> hd t \<noteq> 0x30))
        \<and> reply_ok dev (ReqCheckRecord (map word_of_int vs)) \<longrightarrow>
        delegated s (ReqCheckRecord (map word_of_int vs))
          (cmdRecord dev (cmdline w args) (int (length (cmdline w args))) (1 + int (length args)) s))
   \<and> (\<not> ((word_of_int (hd vs) :: u8) = 0 \<and> hd (hd args) \<noteq> 0x30)
        \<and> reply_ok dev (ReqCheckSignature (word_of_int (hd vs))) \<longrightarrow>
        delegated s (ReqCheckSignature (word_of_int (hd vs)))
          (cmdGetSig dev (cmdline w [hd args]) (int (length (cmdline w [hd args]))) 2 s))"
proof -
  from assms(5) obtain t sig where args: "args = t # sig" by (cases args) auto
  with assms(3) obtain v vs' where vs: "vs = v # vs'" and v: "atoi (t @ [0x0A]) = Some v"
    by (cases vs) auto
  from assms(2) args have t: "token t" and sig: "\<forall>u\<in>set sig. token u" by simp_all
  have n: "1 + int (length args) = 2 + int (length sig)" by (simp add: args)
  note tr = cmdTrain_tokens [OF assms(1-6), of dev]
  note lo = cmdLoad_tokens [OF assms(1-6), of dev]
  note re = cmdRecord_tokens [OF assms(1-6), of dev]
  note ge = cmdGetSig_token [OF assms(1) t v assms(4), of dev]
  have st: "rejected s (cmdSigTrain dev (cmdline w args) (int (length (cmdline w args)))
                       (1 + int (length args)) s)
          \<longleftrightarrow> (word_of_int (hd vs) :: u8) = 0 \<and> hd (hd args) \<noteq> 0x30"
  proof -
    have l: "length (cmdline w (t # sig)) \<le> 65" using assms(7) by (simp only: args)
    from cmdSigTrain_tokens(1) [OF assms(1) t sig v assms(4) l, of dev]
    show ?thesis by (simp add: args vs)
  qed
  have ge1: "rejected s (cmdGetSig dev (cmdline w [hd args]) (int (length (cmdline w [hd args]))) 2 s)
          \<longleftrightarrow> (word_of_int (hd vs) :: u8) = 0 \<and> hd (hd args) \<noteq> 0x30"
    using ge(1) by (simp only: args vs list.sel)
  have ge2: "\<not> ((word_of_int (hd vs) :: u8) = 0 \<and> hd (hd args) \<noteq> 0x30)
        \<and> reply_ok dev (ReqCheckSignature (word_of_int (hd vs))) \<longrightarrow>
        delegated s (ReqCheckSignature (word_of_int (hd vs)))
          (cmdGetSig dev (cmdline w [hd args]) (int (length (cmdline w [hd args]))) 2 s)"
    using ge(2) by (simp only: args vs list.sel) blast
  have tr2: "(\<forall>(t, v)\<in>set (zip args vs). \<not> ((word_of_int v :: u8) = 0 \<and> hd t \<noteq> 0x30))
        \<and> reply_ok dev (ReqTrain (map word_of_int vs)) \<longrightarrow>
        delegated s (ReqTrain (map word_of_int vs))
          (cmdTrain dev (cmdline w args) (int (length (cmdline w args))) (1 + int (length args)) s)"
    using tr(2) by blast
  have lo2: "(\<forall>(t, v)\<in>set (zip args vs). \<not> ((word_of_int v :: u8) = 0 \<and> hd t \<noteq> 0x30))
        \<and> reply_ok dev (ReqLoad (map word_of_int vs)) \<longrightarrow>
        delegated s (ReqLoad (map word_of_int vs))
          (cmdLoad dev (cmdline w args) (int (length (cmdline w args))) (1 + int (length args)) s)"
    using lo(2) by blast
  have re2: "(\<forall>(t, v)\<in>set (zip args vs). \<not> ((word_of_int v :: u8) = 0 \<and> hd t \<noteq> 0x30))
        \<and> reply_ok dev (ReqCheckRecord (map word_of_int vs)) \<longrightarrow>
        delegated s (ReqCheckRecord (map word_of_int vs))
          (cmdRecord dev (cmdline w args) (int (length (cmdline w args))) (1 + int (length args)) s)"
    using re(2) by blast
  show ?thesis
    by (intro conjI) (rule tr(1), rule lo(1), rule re(1), rule st, rule ge1, rule tr2, rule lo2,
                      rule re2, rule ge2)
qed

text \<open>C4, amended, at the line \<open>train 00\<close>.\<close>

theorem zero_record_first_byte_witness:
  "token (bytes ''train'') \<and> token (bytes ''00'') \<and> atoi (bytes ''00'' @ [0x0A]) = Some 0
   \<and> length (records initial) = 7 \<and> length (cmdline (bytes ''train'') [bytes ''00'']) \<le> 65
   \<and> (word_of_int 0 :: u8) = 0 \<and> hd (bytes ''00'') = 0x30
   \<and> reply_ok module_failing (ReqTrain [word_of_int 0])
   \<and> cmdline (bytes ''train'') [bytes ''00''] = bytes ''train 00\<newline>''
   \<and> delegated initial (ReqTrain [word_of_int 0])
        (cmdTrain module_failing (cmdline (bytes ''train'') [bytes ''00''])
           (int (length (cmdline (bytes ''train'') [bytes ''00''])))
           (1 + int (length [bytes ''00''])) initial)"
proof -
  have h: "token (bytes ''train'')" "\<forall>t\<in>set [bytes ''00'']. token t"
    "list_all2 (\<lambda>t v. atoi (t @ [0x0A]) = Some v) [bytes ''00''] [0]"
    "length (records initial) = 7" "[bytes ''00''] \<noteq> []" "length [bytes ''00''] \<le> 7"
    by (simp_all add: token_words token_00 initial_records)
  have l: "length (cmdline (bytes ''train'') [bytes ''00'']) \<le> 65"
    by (simp add: cmdline_def bytes_def)
  have z: "hd (bytes ''00'') = 0x30"
    by (simp add: bytes_def)
  then have g: "\<forall>(t, v)\<in>set (zip [bytes ''00''] [0 :: int]).
                 \<not> ((word_of_int v :: u8) = 0 \<and> hd t \<noteq> 0x30)"
    by simp
  have c: "cmdline (bytes ''train'') [bytes ''00''] = bytes ''train 00\<newline>''"
    by code_simp
  note r = module_failing_reply_ok [of "ReqTrain (map word_of_int [0])"]
  from zero_record_first_byte [OF h l, of module_failing] g r
  have "delegated initial (ReqTrain (map word_of_int [0]))
        (cmdTrain module_failing (cmdline (bytes ''train'') [bytes ''00''])
           (int (length (cmdline (bytes ''train'') [bytes ''00''])))
           (1 + int (length [bytes ''00''])) initial)"
    by blast
  with h(1,4) token_00 l z c r show ?thesis by simp
qed

text \<open>
  C5, as the claim states it, fails on the parameters \<open>255\<close> and \<open>300\<close>: \<open>cmdTrain\<close>
  calls the train operation with record 255, and \<open>cmdLoad\<close> calls the load operation
  with record 44, which is 300 modulo 256.
\<close>

theorem train_accepts_255:
  "delegated initial (ReqTrain [255]) (cmdTrain module_ok (bytes ''train 255\<newline>'') 10 2 initial)
   \<and> delegated initial (ReqLoad [44]) (cmdLoad module_ok (bytes ''load 300\<newline>'') 9 2 initial)"
  by code_simp

text \<open>
  C5, amended. \<open>cmdTrain\<close> and \<open>cmdLoad\<close> have no check of the range: with decimal
  arguments of values up to 32767 they return the format error exactly when one value is
  a multiple of 256 other than 0, and otherwise call the operation with the values
  modulo 256.
\<close>

theorem train_load_no_range_check:
  assumes "ns \<noteq> []" and "length ns \<le> 7" and "\<forall>n\<in>set ns. n \<le> 32767"
    and "length (records s) = 7"
  shows "(rejected s (cmdTrain dev (cmdline (bytes ''train'') (map decimal ns))
                       (int (length (cmdline (bytes ''train'') (map decimal ns))))
                       (1 + int (length ns)) s)
          \<longleftrightarrow> (\<exists>n\<in>set ns. n \<noteq> 0 \<and> n mod 256 = 0))
   \<and> (rejected s (cmdLoad dev (cmdline (bytes ''load'') (map decimal ns))
                       (int (length (cmdline (bytes ''load'') (map decimal ns))))
                       (1 + int (length ns)) s)
          \<longleftrightarrow> (\<exists>n\<in>set ns. n \<noteq> 0 \<and> n mod 256 = 0))
   \<and> ((\<forall>n\<in>set ns. n = 0 \<or> n mod 256 \<noteq> 0) \<and> reply_ok dev (ReqTrain (map of_nat ns)) \<longrightarrow>
        delegated s (ReqTrain (map of_nat ns))
          (cmdTrain dev (cmdline (bytes ''train'') (map decimal ns))
             (int (length (cmdline (bytes ''train'') (map decimal ns)))) (1 + int (length ns)) s))
   \<and> ((\<forall>n\<in>set ns. n = 0 \<or> n mod 256 \<noteq> 0) \<and> reply_ok dev (ReqLoad (map of_nat ns)) \<longrightarrow>
        delegated s (ReqLoad (map of_nat ns))
          (cmdLoad dev (cmdline (bytes ''load'') (map decimal ns))
             (int (length (cmdline (bytes ''load'') (map decimal ns)))) (1 + int (length ns)) s))
   \<and> map unat (map of_nat ns :: u8 list) = map (\<lambda>n. n mod 256) ns"
proof -
  let ?args = "map decimal ns" and ?vs = "map int ns"
  have toks: "\<forall>t\<in>set ?args. token t" by (simp add: token_decimal)
  have vs: "list_all2 (\<lambda>t v. atoi (t @ [0x0A]) = Some v) ?args ?vs"
    using assms(3) by (rule decimal_values)
  have ne: "?args \<noteq> []" and le: "length ?args \<le> 7" using assms(1,2) by simp_all
  have m: "(map word_of_int ?vs :: u8 list) = map of_nat ns" by simp
  have good: "\<forall>(t, v)\<in>set (zip ?args ?vs). \<not> ((word_of_int v :: u8) = 0 \<and> hd t \<noteq> 0x30)"
    if "\<forall>n\<in>set ns. n = 0 \<or> n mod 256 \<noteq> 0"
  proof -
    from that have "\<not> (\<exists>n\<in>set ns. n \<noteq> 0 \<and> n mod 256 = 0)" by auto
    then have "\<not> (\<exists>(t, v)\<in>set (zip ?args ?vs). (word_of_int v :: u8) = 0 \<and> hd t \<noteq> 0x30)"
      unfolding decimal_refused .
    then show ?thesis by auto
  qed
  have a: "rejected s (cmdTrain dev (cmdline (bytes ''train'') ?args)
                       (int (length (cmdline (bytes ''train'') ?args))) (1 + int (length ns)) s)
          \<longleftrightarrow> (\<exists>n\<in>set ns. n \<noteq> 0 \<and> n mod 256 = 0)"
    using cmdTrain_tokens(1) [OF token_words(1) toks vs assms(4) ne le, of dev]
    by (simp only: decimal_refused length_map)
  have b: "rejected s (cmdLoad dev (cmdline (bytes ''load'') ?args)
                       (int (length (cmdline (bytes ''load'') ?args))) (1 + int (length ns)) s)
          \<longleftrightarrow> (\<exists>n\<in>set ns. n \<noteq> 0 \<and> n mod 256 = 0)"
    using cmdLoad_tokens(1) [OF token_words(2) toks vs assms(4) ne le, of dev]
    by (simp only: decimal_refused length_map)
  have c: "(\<forall>n\<in>set ns. n = 0 \<or> n mod 256 \<noteq> 0) \<and> reply_ok dev (ReqTrain (map of_nat ns)) \<longrightarrow>
        delegated s (ReqTrain (map of_nat ns))
          (cmdTrain dev (cmdline (bytes ''train'') (map decimal ns))
             (int (length (cmdline (bytes ''train'') (map decimal ns)))) (1 + int (length ns)) s)"
  proof
    assume h: "(\<forall>n\<in>set ns. n = 0 \<or> n mod 256 \<noteq> 0) \<and> reply_ok dev (ReqTrain (map of_nat ns))"
    then have g: "\<forall>(t, v)\<in>set (zip ?args ?vs). \<not> ((word_of_int v :: u8) = 0 \<and> hd t \<noteq> 0x30)"
      by (intro good) simp
    from h have r: "reply_ok dev (ReqTrain (map word_of_int ?vs))" by (simp only: m)
    from cmdTrain_tokens(2) [OF token_words(1) toks vs assms(4) ne le g r]
    show "delegated s (ReqTrain (map of_nat ns))
          (cmdTrain dev (cmdline (bytes ''train'') (map decimal ns))
             (int (length (cmdline (bytes ''train'') (map decimal ns)))) (1 + int (length ns)) s)"
      by (simp only: m length_map)
  qed
  have d: "(\<forall>n\<in>set ns. n = 0 \<or> n mod 256 \<noteq> 0) \<and> reply_ok dev (ReqLoad (map of_nat ns)) \<longrightarrow>
        delegated s (ReqLoad (map of_nat ns))
          (cmdLoad dev (cmdline (bytes ''load'') (map decimal ns))
             (int (length (cmdline (bytes ''load'') (map decimal ns)))) (1 + int (length ns)) s)"
  proof
    assume h: "(\<forall>n\<in>set ns. n = 0 \<or> n mod 256 \<noteq> 0) \<and> reply_ok dev (ReqLoad (map of_nat ns))"
    then have g: "\<forall>(t, v)\<in>set (zip ?args ?vs). \<not> ((word_of_int v :: u8) = 0 \<and> hd t \<noteq> 0x30)"
      by (intro good) simp
    from h have r: "reply_ok dev (ReqLoad (map word_of_int ?vs))" by (simp only: m)
    from cmdLoad_tokens(2) [OF token_words(2) toks vs assms(4) ne le g r]
    show "delegated s (ReqLoad (map of_nat ns))
          (cmdLoad dev (cmdline (bytes ''load'') (map decimal ns))
             (int (length (cmdline (bytes ''load'') (map decimal ns)))) (1 + int (length ns)) s)"
      by (simp only: m length_map)
  qed
  have e: "map unat (map of_nat ns :: u8 list) = map (\<lambda>n. n mod 256) ns"
    by (simp add: unat_of_nat)
  show ?thesis
    by (intro conjI) (rule a, rule b, rule c, rule d, rule e)
qed

text \<open>C5, amended, at the line \<open>train 255 300\<close>.\<close>

theorem train_load_no_range_check_witness:
  "length [255, 300 :: nat] \<le> 7 \<and> (255 :: nat) \<le> 32767 \<and> (300 :: nat) \<le> 32767
   \<and> length (records initial) = 7
   \<and> (255 :: nat) mod 256 \<noteq> 0 \<and> (300 :: nat) mod 256 \<noteq> 0
   \<and> reply_ok module_failing (ReqTrain (map of_nat [255, 300]))
   \<and> cmdline (bytes ''train'') (map decimal [255, 300]) = bytes ''train 255 300\<newline>''
   \<and> delegated initial (ReqTrain (map of_nat [255, 300]))
        (cmdTrain module_failing (cmdline (bytes ''train'') (map decimal [255, 300]))
           (int (length (cmdline (bytes ''train'') (map decimal [255, 300]))))
           (1 + int (length [255, 300 :: nat])) initial)"
proof -
  have h: "[255, 300] \<noteq> ([] :: nat list)" "length [255, 300 :: nat] \<le> 7"
    "\<forall>n\<in>set [255, 300 :: nat]. n \<le> 32767"
    by simp_all
  have g: "\<forall>n\<in>set [255, 300 :: nat]. n = 0 \<or> n mod 256 \<noteq> 0"
    by simp
  have c: "cmdline (bytes ''train'') (map decimal [255, 300]) = bytes ''train 255 300\<newline>''"
    by code_simp
  from train_load_no_range_check [OF h initial_records, of module_failing] g
    module_failing_reply_ok [of "ReqTrain (map of_nat [255, 300])"]
  have "delegated initial (ReqTrain (map of_nat [255, 300]))
        (cmdTrain module_failing (cmdline (bytes ''train'') (map decimal [255, 300]))
           (int (length (cmdline (bytes ''train'') (map decimal [255, 300]))))
           (1 + int (length [255, 300 :: nat])) initial)"
    by blast
  moreover have "(255 :: nat) mod 256 \<noteq> 0" "(300 :: nat) mod 256 \<noteq> 0" by simp_all
  ultimately show ?thesis
    using h(2) initial_records c module_failing_reply_ok [of "ReqTrain (map of_nat [255, 300])"]
    by simp
qed

text \<open>
  C6. When \<open>checkRecognizer\<close> fails, \<open>cmdVR\<close> returns -1 although the line \<open>vr\<close> is
  well-formed, and \<open>loop\<close> reports a command format error. \<open>cmdTrain\<close> on a failing
  module prints its own message and returns 0. \<open>cmdVR\<close> returns -1 whenever
  \<open>checkRecognizer\<close> returns 0 or less (\<open>cmdVR_module_failure\<close>).
\<close>

theorem cmdVR_module_failure_is_format_error:
  "cmdVR module_failing (bytes ''vr\<newline>'') 3 1 initial
     = Some (- 1, initial\<lparr>buf := [], serial := serial initial @ [Call ReqCheckRecognizer]\<rparr>)
   \<and> map_option serial (loop module_failing (bytes ''vr\<newline>'') 3 initial)
       = Some (serial initial @ [Write (bytes ''vr\<newline>''), Call ReqCheckRecognizer,
                                 Println ''Command Format Error!'', Call (ReqRecognize 50)])
   \<and> map_option serial (loop module_failing (bytes ''train 1\<newline>'') 8 initial)
       = Some (serial initial @ [Write (bytes ''train 1\<newline>''), Call (ReqTrain [1]),
                                 Println ''Train failed.'', Call (ReqRecognize 50)])"
  by code_simp

text \<open>
  C7. \<open>cmdClear\<close> with a parameter count other than 1 returns -1 and leaves the state
  as it was: nothing is printed and the module is not called. With the count 1 it calls
  \<open>clear\<close> and returns 0. A line made of the word \<open>clear\<close> and one or more arguments
  has a count above 1, and \<open>loop\<close> ends it with the command format error: the line is
  echoed, the error is printed, and the only request to the module is the poll for a
  recognised voice that closes every \<open>loop\<close>.
\<close>

theorem cmdClear_arity:
  "(paraNum \<noteq> 1 \<longrightarrow> cmdClear dev cmd len paraNum s = Some (- 1, s))
   \<and> (paraNum = 1 \<longrightarrow> delegated s ReqClear (cmdClear dev cmd len paraNum s))
   \<and> (list_all token args \<and> args \<noteq> [] \<and> fst (dev (ReqRecognize 50)) \<le> 0 \<longrightarrow>
        checkParaNum (cmdline (bytes ''clear'') args) (int (length (cmdline (bytes ''clear'') args)))
          = Some (1 + int (length args))
        \<and> map_option serial
            (loop dev (cmdline (bytes ''clear'') args)
               (int (length (cmdline (bytes ''clear'') args))) s)
          = Some (serial s @ [Write (cmdline (bytes ''clear'') args),
                              Println ''Command Format Error!'', Call (ReqRecognize 50)]))"
proof -
  have a: "paraNum \<noteq> 1 \<longrightarrow> cmdClear dev cmd len paraNum s = Some (- 1, s)"
    by (simp add: cmdClear_def)
  have b: "paraNum = 1 \<longrightarrow> delegated s ReqClear (cmdClear dev cmd len paraNum s)"
    by (simp add: cmdClear_def call0_def emit_def delegated_def)
  have c: "list_all token args \<and> args \<noteq> [] \<and> fst (dev (ReqRecognize 50)) \<le> 0 \<longrightarrow>
        checkParaNum (cmdline (bytes ''clear'') args) (int (length (cmdline (bytes ''clear'') args)))
          = Some (1 + int (length args))
        \<and> map_option serial
            (loop dev (cmdline (bytes ''clear'') args)
               (int (length (cmdline (bytes ''clear'') args))) s)
          = Some (serial s @ [Write (cmdline (bytes ''clear'') args),
                              Println ''Command Format Error!'', Call (ReqRecognize 50)])"
  proof (intro impI, elim conjE)
    assume h: "list_all token args" "args \<noteq> []" "fst (dev (ReqRecognize 50)) \<le> 0"
    from h(1) have t: "\<forall>t\<in>set args. token t" by (simp add: list_all_iff)
    have w: "token (bytes ''clear'')" by (simp add: token_def bytes_def)
    from checkParaNum_cmdline [OF w t]
      loop_clear_extra [where args = args and dev = dev and s = s, OF t h(2,3)]
    show "checkParaNum (cmdline (bytes ''clear'') args) (int (length (cmdline (bytes ''clear'') args)))
          = Some (1 + int (length args))
        \<and> map_option serial
            (loop dev (cmdline (bytes ''clear'') args)
               (int (length (cmdline (bytes ''clear'') args))) s)
          = Some (serial s @ [Write (cmdline (bytes ''clear'') args),
                              Println ''Command Format Error!'', Call (ReqRecognize 50)])"
      by (rule conjI)
  qed
  show ?thesis
    by (intro conjI) (rule a, rule b, rule c)
qed

text \<open>
  C7, at the line \<open>clear extra\<close> with its count 2 and at the line \<open>clear\<close> with its
  count 1.
\<close>

theorem cmdClear_arity_witness:
  "(2::int) \<noteq> 1
   \<and> cmdClear module_ok (bytes ''clear extra\<newline>'') 12 2 initial = Some (- 1, initial)
   \<and> delegated initial ReqClear (cmdClear module_ok (bytes ''clear\<newline>'') 6 1 initial)
   \<and> list_all token [bytes ''extra''] \<and> [bytes ''extra''] \<noteq> []
   \<and> fst (module_ok (ReqRecognize 50)) \<le> 0
   \<and> cmdline (bytes ''clear'') [bytes ''extra''] = bytes ''clear extra\<newline>''
   \<and> checkParaNum (bytes ''clear extra\<newline>'') 12 = Some 2
   \<and> map_option serial (loop module_ok (bytes ''clear extra\<newline>'') 12 initial)
       = Some (serial initial @ [Write (bytes ''clear extra\<newline>''),
                                 Println ''Command Format Error!'', Call (ReqRecognize 50)])"
proof -
  have h: "list_all token [bytes ''extra'']" "[bytes ''extra''] \<noteq> []"
    "fst (module_ok (ReqRecognize 50)) \<le> 0"
    by (simp_all add: token_def bytes_def module_ok_def)
  have c: "cmdline (bytes ''clear'') [bytes ''extra''] = bytes ''clear extra\<newline>''"
    by code_simp
  have l: "int (length (bytes ''clear extra\<newline>'')) = 12"
    by (simp add: bytes_def)
  from cmdClear_arity [of 2 module_ok "bytes ''clear extra\<newline>''" 12 initial "[bytes ''extra'']"]
    cmdClear_arity [of 1 module_ok "bytes ''clear\<newline>''" 6 initial "[bytes ''extra'']"] h
  show ?thesis by (simp add: c l)
qed

text \<open>
  C8. \<open>printTrain\<close> on the reply 02 05 00 07 FE of length 5 prints the success count 2,
  record 5 as trained and record 7 as timed out. On a reply of length 0, \<open>printTrain\<close>
  and \<open>printLoad\<close> print their one line of success and no record, whatever the buffer
  holds.
\<close>

theorem printTrain_reply:
  "printTrain [0x02, 0x05, 0x00, 0x07, 0xFE] 5
     = Some [Print ''Train success: '', PrintlnNum 2 DEC,
             Print ''Record '', PrintNum 5 DEC, Print [CHR 0x09], Println ''Trained'',
             Print ''Record '', PrintNum 7 DEC, Print [CHR 0x09], Println ''Train Time Out'']
   \<and> printTrain b 0 = Some [Println ''Train Finish.'']
   \<and> printLoad b 0 = Some [Println ''Load Successfully.'']"
proof -
  have "printTrain [0x02, 0x05, 0x00, 0x07, 0xFE] 5
     = Some [Print ''Train success: '', PrintlnNum 2 DEC,
             Print ''Record '', PrintNum 5 DEC, Print [CHR 0x09], Println ''Trained'',
             Print ''Record '', PrintNum 7 DEC, Print [CHR 0x09], Println ''Train Time Out'']"
    by code_simp
  then show ?thesis
    by (simp add: printTrain_def printLoad_def)
qed

text \<open>
  C9. For every value from 0 to 254, \<open>atoi\<close> of its decimal numeral is the value, the
  byte stored for it is the value, and each handler that takes a record accepts it: the
  operation is called with that record. The parameters \<open>0\<close> and \<open>00\<close> both parse to 0
  and are accepted, \<open>abc\<close> is refused with the format error.
\<close>

theorem record_id_round_trip:
  assumes "v \<le> 254" and "length (records s) = 7" and "\<forall>req. reply_ok dev req"
  shows "atoi (decimal v @ [0x0A]) = Some (int v)
   \<and> unat (word_of_int (int v) :: u8) = v
   \<and> delegated s (ReqTrain [of_nat v])
       (cmdTrain dev (cmdline (bytes ''train'') [decimal v])
          (int (length (cmdline (bytes ''train'') [decimal v]))) 2 s)
   \<and> delegated s (ReqLoad [of_nat v])
       (cmdLoad dev (cmdline (bytes ''load'') [decimal v])
          (int (length (cmdline (bytes ''load'') [decimal v]))) 2 s)
   \<and> delegated s (ReqCheckRecord [of_nat v])
       (cmdRecord dev (cmdline (bytes ''record'') [decimal v])
          (int (length (cmdline (bytes ''record'') [decimal v]))) 2 s)
   \<and> delegated s (ReqCheckSignature (of_nat v))
       (cmdGetSig dev (cmdline (bytes ''getsig'') [decimal v])
          (int (length (cmdline (bytes ''getsig'') [decimal v]))) 2 s)
   \<and> delegated s (ReqTrainWithSignature (of_nat v) (length (bytes ''sigtrain'') + length (decimal v) + 2) 4)
       (cmdSigTrain dev (cmdline (bytes ''sigtrain'') [decimal v, bytes ''ZERO''])
          (int (length (cmdline (bytes ''sigtrain'') [decimal v, bytes ''ZERO'']))) 3 s)
   \<and> atoi (bytes ''0'' @ [0x0A]) = Some 0 \<and> atoi (bytes ''00'' @ [0x0A]) = Some 0
   \<and> delegated initial (ReqTrain [0]) (cmdTrain module_ok (bytes ''train 0\<newline>'') 8 2 initial)
   \<and> delegated initial (ReqTrain [0]) (cmdTrain module_ok (bytes ''train 00\<newline>'') 9 2 initial)
   \<and> rejected initial (cmdTrain module_ok (bytes ''train abc\<newline>'') 10 2 initial)"
proof -
  have v: "atoi (decimal v @ [0x0A]) = Some (int v)"
    using assms(1) by (intro atoi_decimal) (auto simp: isdigit_def INT_MAX_def)
  have u: "unat (word_of_int (int v) :: u8) = v"
    using assms(1) by (simp add: unat_of_nat)
  have ok: "\<not> ((word_of_int (int v) :: u8) = 0 \<and> hd (decimal v) \<noteq> 0x30)"
    using assms(1) by (auto simp: hd_decimal_zero byte_of_nat_zero dest: dvd_imp_le)
  have vs: "list_all2 (\<lambda>t v. atoi (t @ [0x0A]) = Some v) [decimal v] [int v]"
    using v by simp
  have oks: "\<forall>(t, v)\<in>set (zip [decimal v] [int v]). \<not> ((word_of_int v :: u8) = 0 \<and> hd t \<noteq> 0x30)"
    using ok by simp
  have r: "reply_ok dev req" for req using assms(3) by simp
  have len: "length (decimal v) \<le> 3"
    using assms(1)
    by (subst decimal.simps, subst decimal.simps, subst decimal.simps) (auto simp: Let_def)
  have a: "delegated s (ReqTrain [of_nat v])
       (cmdTrain dev (cmdline (bytes ''train'') [decimal v])
          (int (length (cmdline (bytes ''train'') [decimal v]))) 2 s)"
    using cmdTrain_tokens(2) [OF token_words(1) _ vs assms(2) _ _ oks, of dev] r
    by (simp add: token_decimal)
  have b: "delegated s (ReqLoad [of_nat v])
       (cmdLoad dev (cmdline (bytes ''load'') [decimal v])
          (int (length (cmdline (bytes ''load'') [decimal v]))) 2 s)"
    using cmdLoad_tokens(2) [OF token_words(2) _ vs assms(2) _ _ oks, of dev] r
    by (simp add: token_decimal)
  have c: "delegated s (ReqCheckRecord [of_nat v])
       (cmdRecord dev (cmdline (bytes ''record'') [decimal v])
          (int (length (cmdline (bytes ''record'') [decimal v]))) 2 s)"
    using cmdRecord_tokens(2) [OF token_words(3) _ vs assms(2) _ _ oks, of dev] r
    by (simp add: token_decimal)
  have d: "delegated s (ReqCheckSignature (of_nat v))
       (cmdGetSig dev (cmdline (bytes ''getsig'') [decimal v])
          (int (length (cmdline (bytes ''getsig'') [decimal v]))) 2 s)"
    using cmdGetSig_token(2) [OF token_words(5) token_decimal v assms(2) ok, of dev] r
    by simp
  have e: "delegated s (ReqTrainWithSignature (of_nat v) (length (bytes ''sigtrain'') + length (decimal v) + 2) 4)
       (cmdSigTrain dev (cmdline (bytes ''sigtrain'') [decimal v, bytes ''ZERO''])
          (int (length (cmdline (bytes ''sigtrain'') [decimal v, bytes ''ZERO'']))) 3 s)"
    using cmdSigTrain_tokens(2) [OF token_words(4) token_decimal _ v assms(2) _ ok,
                                 of "[bytes ''ZERO'']" dev] r len token_words(6)
    by (simp add: cmdline_def bytes_def)
  have f: "atoi (bytes ''0'' @ [0x0A]) = Some 0 \<and> atoi (bytes ''00'' @ [0x0A]) = Some 0"
    by code_simp
  have g: "delegated initial (ReqTrain [0]) (cmdTrain module_ok (bytes ''train 0\<newline>'') 8 2 initial)"
    by code_simp
  have h: "delegated initial (ReqTrain [0]) (cmdTrain module_ok (bytes ''train 00\<newline>'') 9 2 initial)"
    by code_simp
  have i: "rejected initial (cmdTrain module_ok (bytes ''train abc\<newline>'') 10 2 initial)"
    by code_simp
  from v u a b c d e f g h i show ?thesis by blast
qed

text \<open>C9, at the value 254 and the line \<open>train 254\<close>.\<close>

theorem record_id_round_trip_witness:
  "(254::nat) \<le> 254 \<and> length (records initial) = 7 \<and> (\<forall>req. reply_ok module_failing req)
   \<and> cmdline (bytes ''train'') [decimal 254] = bytes ''train 254\<newline>''
   \<and> atoi (decimal 254 @ [0x0A]) = Some 254
   \<and> delegated initial (ReqTrain [254])
        (cmdTrain module_failing (cmdline (bytes ''train'') [decimal 254])
           (int (length (cmdline (bytes ''train'') [decimal 254]))) 2 initial)"
proof -
  have "cmdline (bytes ''train'') [decimal 254] = bytes ''train 254\<newline>''"
    by code_simp
  with record_id_round_trip [of 254 initial module_failing] initial_records
    module_failing_reply_ok
  show ?thesis by simp
qed

text \<open>
  C10. On the line \<open>sigtrain 5\<close>, \<open>findPara\<close> asked for the third parameter returns 0
  and moves \<open>paraAddr\<close> to the newline at offset 10. The signature handed to
  \<open>trainWithSignature\<close> starts there and has the length 0. It is so for every record
  argument with no signature after it (\<open>cmdSigTrain_tokens\<close> with no signature).
\<close>

theorem cmdSigTrain_two_parameters:
  "checkParaNum (bytes ''sigtrain 5\<newline>'') 11 = Some 2
   \<and> findPara (bytes ''sigtrain 5\<newline>'') 11 2 None = Some (1, Some 9)
   \<and> findPara (bytes ''sigtrain 5\<newline>'') 11 3 (Some 9) = Some (0, Some 10)
   \<and> cmdSigTrain module_ok (bytes ''sigtrain 5\<newline>'') 11 2 initial
       = Some (0, initial\<lparr>paraAddr := Some 10, records := (records initial)[0 := 5], buf := [],
                 serial := serial initial @ [Call (ReqTrainWithSignature 5 10 0),
                                            Println ''Train With Signature Finish.'']\<rparr>)"
  by code_simp

end
